theory Spec2Isabelle
  imports Main "HOL-Library.Char_ord" "HOL-Library.List_Lexorder"
begin

section \<open>Data model (models/prompt.py, schemas/prompt.py)\<close>

text \<open>
  The column \<open>status\<close> is the SQL enum \<open>PROMPT_STATUS = ["draft", "active", "archived"]\<close>;
  \<open>"active"\<close> is what the specification calls Live.
\<close>

datatype prompt_status = DRAFT | ACTIVE | ARCHIVED

fun status_str :: "prompt_status \<Rightarrow> string" where
  "status_str DRAFT = ''draft''"
| "status_str ACTIVE = ''active''"
| "status_str ARCHIVED = ''archived''"

text \<open>
  JSON values, for the columns \<open>tags\<close> and \<open>metadata\<close> and for the \<open>changes\<close>
  dictionaries handed to the history logger. A dictionary is the list of its items, with
  distinct keys. A number is an integer or a finite float: \<open>JFloat m k\<close> is the float of
  value \<open>m / 2 ^ k\<close>.
\<close>

datatype json =
    JNull
  | JBool bool
  | JInt int
  | JFloat int nat
  | JStr string
  | JList "json list"
  | JDict "(string \<times> json) list"

type_synonym py_dict = "(string \<times> json) list"

text \<open>
  Python's \<open>==\<close> on these values. Numbers are compared by value, a boolean being the
  integer 0 or 1 (\<open>True == 1 == 1.0\<close>); lists are compared item by item; dictionaries are
  equal when they have the same keys with equal values, in whatever order the items stand.
  \<open>canon\<close> brings a value to the form that equal values share: numbers reduced, the
  items of every dictionary sorted by key.
\<close>

fun float_norm :: "int \<Rightarrow> nat \<Rightarrow> json" where
  "float_norm m 0 = JInt m"
| "float_norm m (Suc k) = (if even m then float_norm (m div 2) k else JFloat m (Suc k))"

fun canon :: "json \<Rightarrow> json" where
  "canon JNull = JNull"
| "canon (JBool b) = JInt (if b then 1 else 0)"
| "canon (JInt i) = JInt i"
| "canon (JFloat m k) = float_norm m k"
| "canon (JStr s) = JStr s"
| "canon (JList xs) = JList (map canon xs)"
| "canon (JDict d) = JDict (sort_key fst (map (\<lambda>kv. (fst kv, canon (snd kv))) d))"

definition py_eq :: "json \<Rightarrow> json \<Rightarrow> bool" where
  "py_eq x y = (canon x = canon y)"

text \<open>\<open>d != x\<close> for a dictionary \<open>d\<close> and a nullable dictionary \<open>x\<close>.\<close>

definition dict_ne :: "py_dict \<Rightarrow> py_dict option \<Rightarrow> bool" where
  "dict_ne d x = (case x of None \<Rightarrow> True | Some e \<Rightarrow> \<not> py_eq (JDict d) (JDict e))"

text \<open>Timestamps (\<open>datetime\<close>) are points of a discrete clock.\<close>

type_synonym datetime = nat

text \<open>
  \<open>class Prompt\<close>, table \<open>prompts\<close>. The primary key \<open>id\<close> is \<open>id'\<close> here
  (\<open>id\<close> is the identity function of HOL). \<open>description\<close>, \<open>tags\<close> and
  \<open>metadata\<close> (the attribute \<open>metadata_\<close>) are nullable.
\<close>

record prompt =
  id' :: nat
  name :: string
  version :: string
  content :: string
  description :: "string option"
  status :: prompt_status
  is_active :: bool
  tags :: "string list option"
  metadata :: "py_dict option"
  created_by :: string
  created_at :: datetime
  updated_at :: datetime

text \<open>
  \<open>class PromptHistory\<close>, table \<open>prompt_history\<close>. The text column \<open>change_reason\<close>
  holds \<open>action\<close>, or \<open>f"{action}: {changes}"\<close> when a non-empty \<open>changes\<close> dictionary
  was given; the model keeps the two parts apart as \<open>action\<close> and \<open>changes\<close> instead of
  rendering the dictionary.
\<close>

record prompt_history =
  h_id :: nat
  prompt_id :: nat
  h_version :: string
  h_content :: string
  h_description :: "string option"
  h_status :: prompt_status
  h_tags :: "string list option"
  h_metadata :: "py_dict option"
  changed_by :: string
  changed_at :: datetime
  action :: string
  changes :: "py_dict option"

text \<open>\<open>schemas.PromptCreate\<close> and \<open>schemas.PromptUpdate\<close>.\<close>

record prompt_create =
  pc_name :: string
  pc_content :: string
  pc_description :: "string option"
  pc_tags :: "string list option"
  pc_metadata :: "py_dict option"
  pc_version :: string

record prompt_update =
  pu_content :: "string option"
  pu_description :: "string option"
  pu_tags :: "string list option"
  pu_metadata :: "py_dict option"

section \<open>The database session\<close>

text \<open>
  The two tables, each in insertion order. With SQLite's integer primary key a new row gets
  the largest id of its table plus one, so insertion order is id order.
\<close>

record store =
  prompts :: "prompt list"
  history :: "prompt_history list"

text \<open>
  A SQLAlchemy \<open>Session\<close> (\<open>autocommit=False\<close>): \<open>persisted\<close> is what the database
  holds, \<open>pending\<close> is what the session sees (its objects with their uncommitted changes),
  \<open>utcnow\<close> is the reading of \<open>datetime.utcnow()\<close> during the request. Every
  \<open>db.commit()\<close> can raise (a locked database, a lost connection): \<open>commits_left = Some n\<close>
  lets \<open>n\<close> commits succeed and the next one raise, \<open>None\<close> lets all of them succeed.
  What is in \<open>pending\<close> and not in \<open>persisted\<close> when the request ends is discarded
  (\<open>get_db\<close> closes the session).
\<close>

record session =
  persisted :: store
  pending :: store
  commits_left :: "nat option"
  utcnow :: datetime

datatype error =
    AlreadyExists     \<comment> \<open>\<open>ValueError("A prompt with name ... already exists ...")\<close>\<close>
  | DatabaseError     \<comment> \<open>\<open>ValueError("Failed to create prompt due to a database error ...")\<close>\<close>
  | CommitFailed      \<comment> \<open>the exception of a failing \<open>db.commit()\<close>, not caught\<close>
  | HTTPException nat \<comment> \<open>raised by an endpoint, with its status code\<close>

definition open_session :: "store \<Rightarrow> nat option \<Rightarrow> datetime \<Rightarrow> session" where
  "open_session st fails now =
     \<lparr>persisted = st, pending = st, commits_left = fails, utcnow = now\<rparr>"

definition db_commit :: "session \<Rightarrow> session option" where
  "db_commit db =
     (case commits_left db of
        None \<Rightarrow> Some (db\<lparr>persisted := pending db\<rparr>)
      | Some 0 \<Rightarrow> None
      | Some (Suc n) \<Rightarrow> Some (db\<lparr>persisted := pending db, commits_left := Some n\<rparr>))"

definition db_rollback :: "session \<Rightarrow> session" where
  "db_rollback db = db\<lparr>pending := persisted db\<rparr>"

definition next_id :: "nat list \<Rightarrow> nat" where
  "next_id ids = Suc (fold max ids 0)"

text \<open>\<open>db.add\<close> of a new object: the row is inserted by the next flush.\<close>

definition db_add_prompt :: "session \<Rightarrow> prompt \<Rightarrow> session" where
  "db_add_prompt db p = db\<lparr>pending := (pending db)\<lparr>prompts := prompts (pending db) @ [p]\<rparr>\<rparr>"

definition db_add_history :: "session \<Rightarrow> prompt_history \<Rightarrow> session" where
  "db_add_history db h = db\<lparr>pending := (pending db)\<lparr>history := history (pending db) @ [h]\<rparr>\<rparr>"

text \<open>
  Attribute assignments to a loaded object: the session holds the changed object, and the
  next flush writes it to the row with its primary key.
\<close>

definition saved :: "prompt \<Rightarrow> prompt list \<Rightarrow> prompt list" where
  "saved p ps = map (\<lambda>q. if id' q = id' p then p else q) ps"

definition db_save :: "session \<Rightarrow> prompt \<Rightarrow> session" where
  "db_save db p = db\<lparr>pending := (pending db)\<lparr>prompts := saved p (prompts (pending db))\<rparr>\<rparr>"

text \<open>
  \<open>db.delete\<close>: \<open>Prompt.history\<close> is declared with \<open>cascade="all, delete-orphan"\<close>, so
  the history rows of the prompt are deleted with it.
\<close>

definition db_delete :: "session \<Rightarrow> prompt \<Rightarrow> session" where
  "db_delete db p =
     db\<lparr>pending := \<lparr>prompts = filter (\<lambda>q. id' q \<noteq> id' p) (prompts (pending db)),
                    history = filter (\<lambda>h. prompt_id h \<noteq> id' p) (history (pending db))\<rparr>\<rparr>"

section \<open>crud/crud.py\<close>

text \<open>\<open>.first()\<close> of a query without \<open>ORDER BY\<close> is the matching row inserted first.\<close>

definition get_prompt :: "session \<Rightarrow> nat \<Rightarrow> prompt option" where
  "get_prompt db pid = find (\<lambda>p. id' p = pid) (prompts (pending db))"

definition get_prompt_version :: "session \<Rightarrow> string \<Rightarrow> string \<Rightarrow> prompt option" where
  "get_prompt_version db n v = find (\<lambda>p. name p = n \<and> version p = v) (prompts (pending db))"

text \<open>
  \<open>_log_prompt_change\<close>: snapshots the prompt as the session sees it, adds the history row
  and commits. \<open>if changes\<close> is false for \<open>None\<close> and for the empty dictionary.
\<close>

definition log_prompt_change ::
  "session \<Rightarrow> nat \<Rightarrow> string \<Rightarrow> string \<Rightarrow> string \<Rightarrow> py_dict option \<Rightarrow> session \<times> (error + unit)"
where
  "log_prompt_change db pid ver by act chg =
     (case get_prompt db pid of
        None \<Rightarrow> (db, Inr ())
      | Some p \<Rightarrow>
          let h = \<lparr>h_id = next_id (map h_id (history (pending db))),
                   prompt_id = pid,
                   h_version = ver,
                   h_content = content p,
                   h_description = description p,
                   h_status = status p,
                   h_tags = tags p,
                   h_metadata = metadata p,
                   changed_by = by,
                   changed_at = utcnow db,
                   action = act,
                   changes = (case chg of Some (c # cs) \<Rightarrow> Some (c # cs) | _ \<Rightarrow> None)\<rparr>;
              db1 = db_add_history db h
          in (case db_commit db1 of
                None \<Rightarrow> (db1, Inl CommitFailed)
              | Some db2 \<Rightarrow> (db2, Inr ())))"

text \<open>
  \<open>create_prompt\<close>. \<open>db.flush()\<close> and \<open>db.commit()\<close> stand in one \<open>try\<close> block
  with one handler and are one point of failure here. The schema declares no unique
  constraint on (name, version), so a failure there is never the \<open>UNIQUE constraint failed\<close>
  case of the handler. The history row is written after the block, by a commit of its own.
\<close>

definition create_prompt ::
  "session \<Rightarrow> prompt_create \<Rightarrow> string \<Rightarrow> session \<times> (error + prompt)"
where
  "create_prompt db prompt by =
     (case get_prompt_version db (pc_name prompt) (pc_version prompt) of
        Some existing \<Rightarrow> (db, Inl AlreadyExists)
      | None \<Rightarrow>
          let db_prompt = \<lparr>id' = next_id (map id' (prompts (pending db))),
                           name = pc_name prompt,
                           version = pc_version prompt,
                           content = pc_content prompt,
                           description = pc_description prompt,
                           status = DRAFT,
                           is_active = False,
                           tags = pc_tags prompt,
                           metadata = pc_metadata prompt,
                           created_by = by,
                           created_at = utcnow db,
                           updated_at = utcnow db\<rparr>;
              db1 = db_add_prompt db db_prompt
          in (case db_commit db1 of
                None \<Rightarrow> (db_rollback db1, Inl DatabaseError)
              | Some db2 \<Rightarrow>
                  (case log_prompt_change db2 (id' db_prompt) (version db_prompt) by ''create''
                          (Some [(''status'', JStr ''draft'')]) of
                     (db3, Inl e) \<Rightarrow> (db3, Inl e)
                   | (db3, Inr _) \<Rightarrow> (db3, Inr db_prompt))))"




definition or_empty :: "'a list option \<Rightarrow> 'a list" where
  "or_empty x = (case x of None \<Rightarrow> [] | Some xs \<Rightarrow> xs)"

definition json_text :: "string option \<Rightarrow> json" where
  "json_text x = (case x of None \<Rightarrow> JNull | Some s \<Rightarrow> JStr s)"

definition json_tags :: "string list option \<Rightarrow> json" where
  "json_tags x = (case x of None \<Rightarrow> JNull | Some ts \<Rightarrow> JList (map JStr ts))"

definition json_dict :: "py_dict option \<Rightarrow> json" where
  "json_dict x = (case x of None \<Rightarrow> JNull | Some d \<Rightarrow> JDict d)"

definition old_new :: "json \<Rightarrow> json \<Rightarrow> json" where
  "old_new old new = JDict [(''old'', old), (''new'', new)]"

text \<open>
  \<open>update_prompt\<close>, field by field as the source: each pair is the \<open>changes\<close> dictionary
  and the object so far. Tags are compared as sets, metadata as dictionaries.
\<close>

definition track_content :: "prompt_update \<Rightarrow> py_dict \<times> prompt \<Rightarrow> py_dict \<times> prompt" where
  "track_content u cp =
     (case cp of (chg, p) \<Rightarrow>
        (case pu_content u of
           None \<Rightarrow> (chg, p)
         | Some c \<Rightarrow>
             if c \<noteq> content p
             then (chg @ [(''content'', old_new (JStr (content p)) (JStr c))], p\<lparr>content := c\<rparr>)
             else (chg, p)))"

definition track_description :: "prompt_update \<Rightarrow> py_dict \<times> prompt \<Rightarrow> py_dict \<times> prompt" where
  "track_description u cp =
     (case cp of (chg, p) \<Rightarrow>
        (case pu_description u of
           None \<Rightarrow> (chg, p)
         | Some d \<Rightarrow>
             if Some d \<noteq> description p
             then (chg @ [(''description'', old_new (json_text (description p)) (JStr d))],
                   p\<lparr>description := Some d\<rparr>)
             else (chg, p)))"

definition track_tags :: "prompt_update \<Rightarrow> py_dict \<times> prompt \<Rightarrow> py_dict \<times> prompt" where
  "track_tags u cp =
     (case cp of (chg, p) \<Rightarrow>
        (case pu_tags u of
           None \<Rightarrow> (chg, p)
         | Some t \<Rightarrow>
             if set t \<noteq> set (or_empty (tags p))
             then (chg @ [(''tags'', old_new (json_tags (tags p)) (json_tags (Some t)))],
                   p\<lparr>tags := Some t\<rparr>)
             else (chg, p)))"

definition track_metadata :: "prompt_update \<Rightarrow> py_dict \<times> prompt \<Rightarrow> py_dict \<times> prompt" where
  "track_metadata u cp =
     (case cp of (chg, p) \<Rightarrow>
        (case pu_metadata u of
           None \<Rightarrow> (chg, p)
         | Some m \<Rightarrow>
             if dict_ne m (metadata p)
             then (chg @ [(''metadata'', old_new (json_dict (metadata p)) (JDict m))],
                   p\<lparr>metadata := Some m\<rparr>)
             else (chg, p)))"

definition track_changes :: "prompt_update \<Rightarrow> prompt \<Rightarrow> py_dict \<times> prompt" where
  "track_changes u p =
     track_metadata u (track_tags u (track_description u (track_content u ([], p))))"

definition update_prompt ::
  "session \<Rightarrow> prompt \<Rightarrow> prompt_update \<Rightarrow> string \<Rightarrow> session \<times> (error + prompt)"
where
  "update_prompt db db_prompt prompt_update by =
     (case track_changes prompt_update db_prompt of (chg, p) \<Rightarrow>
        if chg \<noteq> [] then
          (let p1 = p\<lparr>updated_at := utcnow db\<rparr>;
               db1 = db_save db p1
           in case db_commit db1 of
                None \<Rightarrow> (db1, Inl CommitFailed)
              | Some db2 \<Rightarrow>
                  (case log_prompt_change db2 (id' p1) (version p1) by ''update'' (Some chg) of
                     (db3, Inl e) \<Rightarrow> (db3, Inl e)
                   | (db3, Inr _) \<Rightarrow> (db3, Inr p1)))
        else (db, Inr p))"

text \<open>
  \<open>delete_prompt\<close>: the history row is logged (and committed) first, the prompt is archived
  after it. The UPDATE does not set \<open>updated_at\<close>, so the column's \<open>onupdate\<close> does.
\<close>

fun delete_prompt :: "session \<Rightarrow> prompt option \<Rightarrow> string \<Rightarrow> session \<times> (error + bool)" where
  "delete_prompt db None by = (db, Inr False)"
| "delete_prompt db (Some db_prompt) by =
     (case log_prompt_change db (id' db_prompt) (version db_prompt) by ''delete''
             (Some [(''status'', JStr (status_str (status db_prompt)))]) of
        (db1, Inl e) \<Rightarrow> (db1, Inl e)
      | (db1, Inr _) \<Rightarrow>
          let db2 = db_save db1
                      (db_prompt\<lparr>status := ARCHIVED, is_active := False, updated_at := utcnow db1\<rparr>)
          in (case db_commit db2 of
                None \<Rightarrow> (db2, Inl CommitFailed)
              | Some db3 \<Rightarrow> (db3, Inr True)))"

definition hard_delete_prompt :: "session \<Rightarrow> prompt \<Rightarrow> session \<times> (error + bool)" where
  "hard_delete_prompt db db_prompt =
     (let db1 = db_delete db db_prompt
      in case db_commit db1 of
           None \<Rightarrow> (db_rollback db1, Inr False)
         | Some db2 \<Rightarrow> (db2, Inr True))"

text \<open>
  \<open>set_active_version\<close>. The archived predecessor is committed by the commit inside its
  \<open>_log_prompt_change\<close>, the target by the commit inside the second one; the function's own
  \<open>db.commit()\<close> comes last.
\<close>

definition archive_existing_active :: "session \<Rightarrow> prompt \<Rightarrow> session \<times> (error + unit)" where
  "archive_existing_active db db_prompt =
     (case find (\<lambda>p. name p = name db_prompt \<and> is_active p \<and> id' p \<noteq> id' db_prompt)
                (prompts (pending db)) of
        None \<Rightarrow> (db, Inr ())
      | Some existing_active \<Rightarrow>
          let db1 = db_save db
                      (existing_active\<lparr>status := ARCHIVED, is_active := False,
                                        updated_at := utcnow db\<rparr>)
          in log_prompt_change db1 (id' existing_active) (version existing_active)
               ''system'' ''auto_archived''
               (Some [(''status'', JStr ''active -> archived''),
                      (''reason'', JStr (''replaced by v'' @ version db_prompt))]))"

definition set_active_version :: "session \<Rightarrow> prompt \<Rightarrow> string \<Rightarrow> session \<times> (error + prompt)" where
  "set_active_version db db_prompt by =
     (case archive_existing_active db db_prompt of
        (db1, Inl e) \<Rightarrow> (db1, Inl e)
      | (db1, Inr _) \<Rightarrow>
          let p = db_prompt\<lparr>is_active := True, status := ACTIVE, updated_at := utcnow db1\<rparr>;
              db2 = db_save db1 p
          in (case log_prompt_change db2 (id' p) (version p) by ''set_as_live_version'' None of
                (db3, Inl e) \<Rightarrow> (db3, Inl e)
              | (db3, Inr _) \<Rightarrow>
                  (case db_commit db3 of
                     None \<Rightarrow> (db3, Inl CommitFailed)
                   | Some db4 \<Rightarrow> (db4, Inr p))))"

section \<open>api/v1/api.py\<close>

text \<open>
  \<open>convert_prompt_to_response\<close>: the response carries the fields of the row, with
  \<open>tags or []\<close> and \<open>metadata_ or {}\<close>.
\<close>

definition convert_prompt_to_response :: "prompt \<Rightarrow> prompt" where
  "convert_prompt_to_response p =
     p\<lparr>tags := Some (or_empty (tags p)), metadata := Some (or_empty (metadata p))\<rparr>"

text \<open>
  The endpoint \<open>set_active_version\<close> (the same guard stands in
  \<open>api/v1/set_active_version.py\<close>). Its 404 is raised inside the \<open>try\<close> whose handler
  \<open>except Exception\<close> turns every exception into a 500.
\<close>

definition api_set_active_version ::
  "session \<Rightarrow> string \<Rightarrow> string \<Rightarrow> string \<Rightarrow> session \<times> (error + prompt)"
where
  "api_set_active_version db n v current_user =
     (case get_prompt_version db n v of
        None \<Rightarrow> (db, Inl (HTTPException 500))
      | Some p \<Rightarrow>
          if is_active p then (db, Inr (convert_prompt_to_response p))
          else (case set_active_version db p current_user of
                  (db1, Inl e) \<Rightarrow> (db1, Inl (HTTPException 500))
                | (db1, Inr updated_prompt) \<Rightarrow>
                    (db1, Inr (convert_prompt_to_response updated_prompt))))"

text \<open>\<open>str.split(sep)\<close> for a one-character separator.\<close>

fun split :: "char \<Rightarrow> string \<Rightarrow> string list" where
  "split sep [] = [[]]"
| "split sep (c # cs) =
     (if c = sep then [] # split sep cs
      else (case split sep cs of
              [] \<Rightarrow> [[c]]
            | w # ws \<Rightarrow> (c # w) # ws))"














section \<open>Vocabulary of the properties\<close>

text \<open>
  The history row that \<open>_log_prompt_change\<close> adds to the rows \<open>hs\<close> at time \<open>now\<close>
  for the prompt \<open>p\<close> as the session sees it.
\<close>

definition history_row ::
  "prompt_history list \<Rightarrow> datetime \<Rightarrow> prompt \<Rightarrow> string \<Rightarrow> string \<Rightarrow> py_dict option
     \<Rightarrow> prompt_history"
where
  "history_row hs now p by act chg =
     \<lparr>h_id = next_id (map h_id hs),
      prompt_id = id' p,
      h_version = version p,
      h_content = content p,
      h_description = description p,
      h_status = status p,
      h_tags = tags p,
      h_metadata = metadata p,
      changed_by = by,
      changed_at = now,
      action = act,
      changes = chg\<rparr>"

text \<open>The row that \<open>create_prompt\<close> adds to the rows \<open>ps\<close> at time \<open>now\<close>.\<close>

definition new_prompt :: "prompt list \<Rightarrow> datetime \<Rightarrow> prompt_create \<Rightarrow> string \<Rightarrow> prompt" where
  "new_prompt ps now prompt by =
     \<lparr>id' = next_id (map id' ps),
      name = pc_name prompt,
      version = pc_version prompt,
      content = pc_content prompt,
      description = pc_description prompt,
      status = DRAFT,
      is_active = False,
      tags = pc_tags prompt,
      metadata = pc_metadata prompt,
      created_by = by,
      created_at = now,
      updated_at = now\<rparr>"

text \<open>The objects that \<open>delete_prompt\<close> and \<open>set_active_version\<close> write.\<close>

definition archived :: "datetime \<Rightarrow> prompt \<Rightarrow> prompt" where
  "archived now p = p\<lparr>status := ARCHIVED, is_active := False, updated_at := now\<rparr>"

definition activated :: "datetime \<Rightarrow> prompt \<Rightarrow> prompt" where
  "activated now p = p\<lparr>is_active := True, status := ACTIVE, updated_at := now\<rparr>"

text \<open>
  What \<open>update_prompt\<close> takes for a change of a field: a value is supplied and differs from
  the current one, tags being compared as sets and metadata by \<open>!=\<close> of dictionaries.
\<close>

definition content_changed :: "prompt_update \<Rightarrow> prompt \<Rightarrow> bool" where
  "content_changed u p = (case pu_content u of None \<Rightarrow> False | Some c \<Rightarrow> c \<noteq> content p)"

definition description_changed :: "prompt_update \<Rightarrow> prompt \<Rightarrow> bool" where
  "description_changed u p =
     (case pu_description u of None \<Rightarrow> False | Some d \<Rightarrow> Some d \<noteq> description p)"

definition tags_changed :: "prompt_update \<Rightarrow> prompt \<Rightarrow> bool" where
  "tags_changed u p =
     (case pu_tags u of None \<Rightarrow> False | Some t \<Rightarrow> set t \<noteq> set (or_empty (tags p)))"

definition metadata_changed :: "prompt_update \<Rightarrow> prompt \<Rightarrow> bool" where
  "metadata_changed u p =
     (case pu_metadata u of None \<Rightarrow> False | Some m \<Rightarrow> dict_ne m (metadata p))"

definition any_change :: "prompt_update \<Rightarrow> prompt \<Rightarrow> bool" where
  "any_change u p =
     (content_changed u p \<or> description_changed u p \<or> tags_changed u p \<or> metadata_changed u p)"

text \<open>The old/new pairs of the changed fields, and the prompt with the changed fields set.\<close>

definition diffs :: "prompt_update \<Rightarrow> prompt \<Rightarrow> py_dict" where
  "diffs u p =
     (if content_changed u p
      then [(''content'', old_new (JStr (content p)) (json_text (pu_content u)))] else []) @
     (if description_changed u p
      then [(''description'', old_new (json_text (description p)) (json_text (pu_description u)))]
      else []) @
     (if tags_changed u p
      then [(''tags'', old_new (json_tags (tags p)) (json_tags (pu_tags u)))] else []) @
     (if metadata_changed u p
      then [(''metadata'', old_new (json_dict (metadata p)) (json_dict (pu_metadata u)))]
      else [])"

definition applied :: "prompt_update \<Rightarrow> prompt \<Rightarrow> prompt" where
  "applied u p =
     p\<lparr>content := (case pu_content u of None \<Rightarrow> content p | Some c \<Rightarrow> c),
       description := (case pu_description u of None \<Rightarrow> description p | Some d \<Rightarrow> Some d),
       tags := (if tags_changed u p then pu_tags u else tags p),
       metadata := (if metadata_changed u p then pu_metadata u else metadata p)\<rparr>"

text \<open>\<open>id\<close> is the primary key of \<open>prompts\<close>.\<close>

definition primary_key :: "store \<Rightarrow> bool" where
  "primary_key st = distinct (map id' (prompts st))"

text \<open>The number of versions of a name with \<open>is_active = true\<close>.\<close>

definition live_count :: "store \<Rightarrow> string \<Rightarrow> nat" where
  "live_count st n = length (filter (\<lambda>p. name p = n \<and> is_active p) (prompts st))"

text \<open>The same on the rows as a set: ids are distinct and no two rows of the name are live.\<close>

definition one_live :: "string \<Rightarrow> prompt list \<Rightarrow> bool" where
  "one_live n ps =
     (distinct (map id' ps) \<and>
      (\<forall>x \<in> set ps. \<forall>y \<in> set ps.
         name x = n \<and> is_active x \<longrightarrow> name y = n \<and> is_active y \<longrightarrow> x = y))"

text \<open>
  A request: one engine operation in a session of its own, on the row that \<open>get_prompt\<close>
  loads for the given id as the endpoints do (no such row: nothing is done). A request comes
  with the commit that fails in it, if any, and with its clock reading.
\<close>

datatype operation =
    CreatePrompt prompt_create string
  | UpdatePrompt nat prompt_update string
  | SetActiveVersion nat string
  | DeletePrompt nat string
  | HardDeletePrompt nat

fun run_operation :: "session \<Rightarrow> operation \<Rightarrow> session" where
  "run_operation db (CreatePrompt prompt by) = fst (create_prompt db prompt by)"
| "run_operation db (UpdatePrompt pid prompt_update by) =
     (case get_prompt db pid of
        None \<Rightarrow> db
      | Some p \<Rightarrow> fst (update_prompt db p prompt_update by))"
| "run_operation db (SetActiveVersion pid by) =
     (case get_prompt db pid of
        None \<Rightarrow> db
      | Some p \<Rightarrow> fst (set_active_version db p by))"
| "run_operation db (DeletePrompt pid by) =
     (case get_prompt db pid of
        None \<Rightarrow> db
      | Some p \<Rightarrow> fst (delete_prompt db (Some p) by))"
| "run_operation db (HardDeletePrompt pid) =
     (case get_prompt db pid of
        None \<Rightarrow> db
      | Some p \<Rightarrow> fst (hard_delete_prompt db p))"

definition request :: "store \<Rightarrow> operation \<times> nat option \<times> datetime \<Rightarrow> store" where
  "request st r =
     (case r of (op, fails, now) \<Rightarrow> persisted (run_operation (open_session st fails now) op))"

definition requests :: "store \<Rightarrow> (operation \<times> nat option \<times> datetime) list \<Rightarrow> store" where
  "requests st rs = foldl request st rs"

section \<open>Example data\<close>

text \<open>Two versions of the name \<open>p\<close>: \<open>prompt_a\<close> is live, \<open>prompt_b\<close> is a draft.\<close>

definition prompt_a :: prompt where
  "prompt_a =
     \<lparr>id' = 1, name = ''p'', version = ''1.0.0'', content = ''first'', description = None,
      status = ACTIVE, is_active = True, tags = Some [''a'', ''b''], metadata = Some [],
      created_by = ''ann'', created_at = 1, updated_at = 2\<rparr>"

definition prompt_b :: prompt where
  "prompt_b =
     \<lparr>id' = 2, name = ''p'', version = ''1.0.1'', content = ''second'', description = None,
      status = DRAFT, is_active = False, tags = Some [], metadata = Some [],
      created_by = ''ann'', created_at = 3, updated_at = 3\<rparr>"

definition live_and_draft :: store where
  "live_and_draft = \<lparr>prompts = [prompt_a, prompt_b], history = []\<rparr>"

text \<open>\<open>prompt_a\<close> alone, archived; a first version to create; the empty database.\<close>

definition retired :: store where
  "retired = \<lparr>prompts = [prompt_a\<lparr>status := ARCHIVED, is_active := False\<rparr>], history = []\<rparr>"

definition first_prompt :: prompt_create where
  "first_prompt =
     \<lparr>pc_name = ''p'', pc_content = ''first'', pc_description = None, pc_tags = Some [],
      pc_metadata = Some [], pc_version = ''1.0.0''\<rparr>"

definition empty_store :: store where
  "empty_store = \<lparr>prompts = [], history = []\<rparr>"

text \<open>Two updates of \<open>prompt_a\<close>: its tags in another order, and a new content.\<close>

definition reorder_tags :: prompt_update where
  "reorder_tags =
     \<lparr>pu_content = None, pu_description = None, pu_tags = Some [''b'', ''a''], pu_metadata = None\<rparr>"

definition new_content :: prompt_update where
  "new_content =
     \<lparr>pu_content = Some ''revised'', pu_description = None, pu_tags = None, pu_metadata = None\<rparr>"

text \<open>\<open>prompt_b\<close> alone, with the history entry of its creation.\<close>

definition draft_with_history :: store where
  "draft_with_history =
     \<lparr>prompts = [prompt_b],
      history = [history_row [] 3 prompt_b ''ann'' ''create'' (Some [(''status'', JStr ''draft'')])]\<rparr>"





text \<open>
  \<open>prompt_a\<close> with metadata \<open>{"a": 1, "b": true}\<close>, and an update that supplies the
  metadata \<open>{"b": 1, "a": 1}\<close>.
\<close>

definition prompt_m :: prompt where
  "prompt_m = prompt_a\<lparr>metadata := Some [(''a'', JInt 1), (''b'', JBool True)]\<rparr>"

definition with_metadata :: store where
  "with_metadata = \<lparr>prompts = [prompt_m], history = []\<rparr>"

definition reorder_metadata :: prompt_update where
  "reorder_metadata =
     \<lparr>pu_content = None, pu_description = None, pu_tags = None,
      pu_metadata = Some [(''b'', JInt 1), (''a'', JInt 1)]\<rparr>"

section \<open>Auxiliary facts\<close>

subsection \<open>Equality of JSON values\<close>

lemma same_keys_same_items:
  "map fst a = map fst b \<Longrightarrow> distinct (map fst a) \<Longrightarrow> set a = set b \<Longrightarrow> a = b"
proof (induction a arbitrary: b)
  case Nil
  then show ?case by simp
next
  case (Cons x a)
  then obtain y b' where b: "b = y # b'" by (cases b) auto
  from Cons.prems(1) b have keys: "fst x = fst y" "map fst a = map fst b'" by simp_all
  from Cons.prems(2) have dist: "fst x \<notin> set (map fst a)" "distinct (map fst a)" by simp_all
  have "x \<in> set (y # b')" using Cons.prems(3) b by auto
  moreover have "x \<notin> set b'"
  proof
    assume "x \<in> set b'"
    then have "fst x \<in> set (map fst b')" by simp
    with keys(2) dist(1) show False by simp
  qed
  ultimately have xy: "x = y" by simp
  have "y \<notin> set a"
  proof
    assume "y \<in> set a"
    then have "fst y \<in> set (map fst a)" by simp
    with keys(1) dist(1) show False by simp
  qed
  then have "set a = set b'"
    using Cons.prems(3) b xy \<open>x \<notin> set b'\<close> by auto
  with keys(2) dist(2) have "a = b'" by (intro Cons.IH)
  with xy b show ?case by simp
qed

lemma sort_key_fst_unique:
  fixes xs ys :: "('k::linorder \<times> 'v) list"
  assumes "distinct (map fst xs)" and "distinct (map fst ys)" and "set xs = set ys"
  shows "sort_key fst xs = sort_key fst ys"
proof -
  let ?a = "sort_key fst xs" and ?b = "sort_key fst ys"
  have da: "distinct (map fst ?a)"
  proof (rule card_distinct)
    have "card (set (map fst ?a)) = card (set (map fst xs))" by simp
    also have "\<dots> = length (map fst xs)" using assms(1) by (rule distinct_card)
    finally show "card (set (map fst ?a)) = length (map fst ?a)" by simp
  qed
  have db: "distinct (map fst ?b)"
  proof (rule card_distinct)
    have "card (set (map fst ?b)) = card (set (map fst ys))" by simp
    also have "\<dots> = length (map fst ys)" using assms(2) by (rule distinct_card)
    finally show "card (set (map fst ?b)) = length (map fst ?b)" by simp
  qed
  have "set (map fst ?a) = set (map fst ?b)" using assms(3) by simp
  then have "map fst ?a = map fst ?b"
    using da db by (intro sorted_distinct_set_unique) simp_all
  moreover have "set ?a = set ?b" using assms(3) by simp
  ultimately show ?thesis using da by (intro same_keys_same_items)
qed

lemma map_of_canon_items:
  "map_of (map (\<lambda>kv. (fst kv, canon (snd kv))) d) k = map_option canon (map_of d k)"
  by (induction d) auto

lemma py_eq_dict:
  assumes "distinct (map fst d)" and "distinct (map fst e)"
  shows "py_eq (JDict d) (JDict e) \<longleftrightarrow> (\<forall>k. rel_option py_eq (map_of d k) (map_of e k))"
proof -
  let ?c = "map (\<lambda>kv. (fst kv, canon (snd kv)))"
  have dd: "distinct (map fst (?c d))" and de: "distinct (map fst (?c e))"
    using assms by (simp_all add: comp_def)
  have "py_eq (JDict d) (JDict e) \<longleftrightarrow> sort_key fst (?c d) = sort_key fst (?c e)"
    by (simp add: py_eq_def)
  also have "\<dots> \<longleftrightarrow> set (?c d) = set (?c e)"
  proof
    assume "sort_key fst (?c d) = sort_key fst (?c e)"
    then have "set (sort_key fst (?c d)) = set (sort_key fst (?c e))" by simp
    then show "set (?c d) = set (?c e)" by (simp only: set_sort)
  next
    assume "set (?c d) = set (?c e)"
    with dd de show "sort_key fst (?c d) = sort_key fst (?c e)" by (rule sort_key_fst_unique)
  qed
  also have "\<dots> \<longleftrightarrow> map_of (?c d) = map_of (?c e)"
    using map_of_inject_set [OF dd de] by simp
  also have "\<dots> \<longleftrightarrow> (\<forall>k. map_option canon (map_of d k) = map_option canon (map_of e k))"
    by (simp add: fun_eq_iff map_of_canon_items)
  also have "\<dots> \<longleftrightarrow> (\<forall>k. rel_option py_eq (map_of d k) (map_of e k))"
  proof -
    have "\<And>x y. (map_option canon x = map_option canon y) = rel_option py_eq x y"
      by (case_tac x; case_tac y) (simp_all add: py_eq_def)
    then show ?thesis by simp
  qed
  finally show ?thesis .
qed

lemma py_eq_list: "py_eq (JList xs) (JList ys) \<longleftrightarrow> list_all2 py_eq xs ys"
  by (auto simp: py_eq_def list_all2_conv_all_nth list_eq_iff_nth_eq)

lemma float_norm_shape:
  "(\<exists>i. float_norm m k = JInt i) \<or> (\<exists>n l. float_norm m k = JFloat n l)"
  by (induction m k rule: float_norm.induct) auto

lemma float_norm_int: "float_norm m k = JInt i \<longleftrightarrow> m = i * 2 ^ k"
proof (induction m k rule: float_norm.induct)
  case (1 m)
  show ?case by auto
next
  case (2 m k)
  show ?case
  proof (cases "even m")
    case True
    then have "m = i * 2 ^ Suc k \<longleftrightarrow> m div 2 = i * 2 ^ k" by auto
    with True 2 show ?thesis by simp
  next
    case False
    then have "m \<noteq> i * 2 ^ Suc k" by auto
    with False show ?thesis by simp
  qed
qed

lemma odd_times_power:
  fixes a b :: int
  assumes "odd a" and "odd b"
  shows "a * 2 ^ x = b * 2 ^ y \<longleftrightarrow> a = b \<and> x = y"
proof
  assume eq: "a * 2 ^ x = b * 2 ^ y"
  have "x = y"
  proof (rule ccontr)
    assume "x \<noteq> y"
    then consider "x < y" | "y < x" by linarith
    then show False
    proof cases
      case 1
      then obtain d where y: "y = x + Suc d" by (metis less_imp_Suc_add add_Suc_right)
      with eq have "a * 2 ^ x = (b * 2 ^ Suc d) * 2 ^ x" by (simp add: power_add mult_ac)
      then have "a = b * 2 ^ Suc d" by simp
      with assms(1) show False by simp
    next
      case 2
      then obtain d where x: "x = y + Suc d" by (metis less_imp_Suc_add add_Suc_right)
      with eq have "(a * 2 ^ Suc d) * 2 ^ y = b * 2 ^ y" by (simp add: power_add mult_ac)
      then have "a * 2 ^ Suc d = b" by simp
      with assms(2) show False by auto
    qed
  qed
  with eq show "a = b \<and> x = y" by simp
next
  assume "a = b \<and> x = y"
  then show "a * 2 ^ x = b * 2 ^ y" by simp
qed

lemma float_norm_float:
  assumes "odd m"
  shows "float_norm n l = JFloat m (Suc k) \<longleftrightarrow> m * 2 ^ l = n * 2 ^ Suc k"
proof (induction n l rule: float_norm.induct)
  case (1 n)
  have "m \<noteq> n * 2 ^ Suc k" using assms by auto
  then show ?case by simp
next
  case (2 n l)
  show ?case
  proof (cases "even n")
    case True
    then obtain h where n: "n = 2 * h" by (auto elim: evenE)
    with True 2 show ?thesis by (simp add: mult_ac)
  next
    case False
    with assms odd_times_power [of m n "Suc l" "Suc k"] show ?thesis by auto
  qed
qed

lemma float_norm_eq: "float_norm m k = float_norm n l \<longleftrightarrow> m * 2 ^ l = n * 2 ^ k"
proof (induction m k rule: float_norm.induct)
  case (1 m)
  have "JInt m = float_norm n l \<longleftrightarrow> float_norm n l = JInt m" by auto
  also have "\<dots> \<longleftrightarrow> n = m * 2 ^ l" by (rule float_norm_int)
  also have "\<dots> \<longleftrightarrow> m * 2 ^ l = n * 2 ^ 0" by auto
  finally show ?case by simp
next
  case (2 m k)
  show ?case
  proof (cases "even m")
    case True
    then obtain h where m: "m = 2 * h" by (auto elim: evenE)
    with True 2 show ?thesis by (simp add: mult_ac)
  next
    case False
    have "JFloat m (Suc k) = float_norm n l \<longleftrightarrow> float_norm n l = JFloat m (Suc k)" by auto
    also have "\<dots> \<longleftrightarrow> m * 2 ^ l = n * 2 ^ Suc k" using False by (rule float_norm_float)
    finally show ?thesis using False by simp
  qed
qed

lemma py_eq_numbers:
  "py_eq (JInt i) (JInt j) \<longleftrightarrow> i = j"
  "py_eq (JBool b) (JBool c) \<longleftrightarrow> b = c"
  "py_eq (JBool b) (JInt i) \<longleftrightarrow> i = (if b then 1 else 0)"
  "py_eq (JFloat m k) (JInt i) \<longleftrightarrow> m = i * 2 ^ k"
  "py_eq (JFloat m k) (JFloat n l) \<longleftrightarrow> m * 2 ^ l = n * 2 ^ k"
proof -
  show "py_eq (JInt i) (JInt j) \<longleftrightarrow> i = j" by (simp add: py_eq_def)
  show "py_eq (JBool b) (JBool c) \<longleftrightarrow> b = c" by (cases b; cases c) (simp_all add: py_eq_def)
  show "py_eq (JBool b) (JInt i) \<longleftrightarrow> i = (if b then 1 else 0)"
    by (cases b) (auto simp add: py_eq_def)
  show "py_eq (JFloat m k) (JInt i) \<longleftrightarrow> m = i * 2 ^ k"
    by (simp add: py_eq_def float_norm_int)
  show "py_eq (JFloat m k) (JFloat n l) \<longleftrightarrow> m * 2 ^ l = n * 2 ^ k"
    by (simp add: py_eq_def float_norm_eq)
qed

lemma canon_text:
  "canon y = JNull \<longleftrightarrow> y = JNull"
  "canon y = JStr s \<longleftrightarrow> y = JStr s"
proof -
  show "canon y = JNull \<longleftrightarrow> y = JNull"
  proof (cases y)
    case (JFloat m k)
    then show ?thesis using float_norm_shape [of m k] by auto
  qed simp_all
  show "canon y = JStr s \<longleftrightarrow> y = JStr s"
  proof (cases y)
    case (JFloat m k)
    then show ?thesis using float_norm_shape [of m k] by auto
  qed simp_all
qed

lemma py_eq_text:
  "py_eq JNull y \<longleftrightarrow> y = JNull"
  "py_eq (JStr s) y \<longleftrightarrow> y = JStr s"
proof -
  have "py_eq JNull y \<longleftrightarrow> canon y = JNull" unfolding py_eq_def by (simp add: eq_commute)
  then show "py_eq JNull y \<longleftrightarrow> y = JNull" by (simp only: canon_text)
  have "py_eq (JStr s) y \<longleftrightarrow> canon y = JStr s" unfolding py_eq_def by (simp add: eq_commute)
  then show "py_eq (JStr s) y \<longleftrightarrow> y = JStr s" by (simp only: canon_text)
qed


lemmas session_defs = open_session_def db_commit_def db_rollback_def db_add_prompt_def
  db_add_history_def db_save_def db_delete_def

lemma fold_max_mono: "b \<le> fold max ys (b::nat)"
proof (induction ys arbitrary: b)
  case Nil show ?case by simp
next
  case (Cons z zs)
  have "b \<le> max z b" by simp
  also have "\<dots> \<le> fold max zs (max z b)" by (rule Cons.IH)
  finally show ?case by simp
qed

lemma fold_max_ge: "x \<in> set xs \<Longrightarrow> x \<le> fold max xs (a::nat)"
proof (induction xs arbitrary: a)
  case Nil then show ?case by simp
next
  case (Cons y ys)
  show ?case
  proof (cases "x = y")
    case True
    have "y \<le> max y a" by simp
    also have "\<dots> \<le> fold max ys (max y a)" by (rule fold_max_mono)
    finally show ?thesis using True by simp
  next
    case False
    with Cons.prems have "x \<in> set ys" by simp
    then show ?thesis using Cons.IH by simp
  qed
qed

lemma next_id_fresh: "x \<in> set ids \<Longrightarrow> x \<noteq> next_id ids"
  using fold_max_ge [of x ids 0] by (auto simp: next_id_def)

lemma find_app:
  "find P (xs @ ys) = (case find P xs of None \<Rightarrow> find P ys | Some x \<Rightarrow> Some x)"
  by (induction xs) auto

lemma find_Some_mem: "find P ps = Some p \<Longrightarrow> p \<in> set ps \<and> P p"
  by (induction ps) (auto split: if_splits)

lemma find_new_id:
  "id' p = next_id (map id' ps) \<Longrightarrow> find (\<lambda>q. id' q = next_id (map id' ps)) (ps @ [p]) = Some p"
proof -
  assume new: "id' p = next_id (map id' ps)"
  have "\<And>q. q \<in> set ps \<Longrightarrow> id' q \<noteq> id' p"
    using next_id_fresh [of _ "map id' ps"] new by force
  then have "find (\<lambda>q. id' q = id' p) ps = None"
    by (auto simp: find_None_iff)
  then show ?thesis using new by (simp add: find_app)
qed

lemma ids_saved: "map id' (saved p ps) = map id' ps"
  by (induction ps) (auto simp: saved_def)

lemma id_set_saved: "id' ` set (saved p ps) = id' ` set ps"
  using ids_saved [of p ps] by (metis set_map)

lemma find_saved:
  "id' p = i \<Longrightarrow> i \<in> id' ` set ps \<Longrightarrow> find (\<lambda>q. id' q = i) (saved p ps) = Some p"
  by (induction ps) (auto simp: saved_def)

lemma fails_cases:
  obtains "f = None" | "f = Some 0" | "f = Some 1" | "f = Some 2"
        | n where "f = Some (Suc (Suc (Suc n)))"
proof (cases f)
  case None then show ?thesis using that by simp
next
  case (Some k)
  then consider "k = 0" | "k = 1" | "k = 2" | n where "k = Suc (Suc (Suc n))"
    by (metis One_nat_def Suc_1 not0_implies_Suc)
  then show ?thesis using that Some by cases auto
qed

lemma track_changes_eq: "track_changes u p = (diffs u p, applied u p)"
  by (cases "pu_content u"; cases "pu_description u"; cases "pu_tags u"; cases "pu_metadata u")
     (simp_all add: track_changes_def track_content_def track_description_def track_tags_def
        track_metadata_def diffs_def applied_def content_changed_def description_changed_def
        tags_changed_def metadata_changed_def json_text_def json_tags_def json_dict_def)

lemma diffs_empty: "diffs u p = [] \<longleftrightarrow> \<not> any_change u p"
  by (simp add: diffs_def any_change_def)

lemma applied_fixed:
  "id' (applied u p) = id' p" "version (applied u p) = version p" "name (applied u p) = name p"
  "is_active (applied u p) = is_active p" "status (applied u p) = status p"
  by (simp_all add: applied_def)

subsection \<open>What each operation leaves in the database, by the commit that fails\<close>

lemma create_prompt_stage:
  assumes "find (\<lambda>p. name p = pc_name prompt \<and> version p = pc_version prompt) (prompts st) = None"
      and "create_prompt (open_session st f now) prompt by = (db, r)"
  shows "let row = new_prompt (prompts st) now prompt by;
             entry = history_row (history st) now row by ''create''
                       (Some [(''status'', JStr ''draft'')])
         in (f = Some 0 \<longrightarrow> persisted db = st \<and> r = Inl DatabaseError) \<and>
            (f = Some 1 \<longrightarrow>
               persisted db = \<lparr>prompts = prompts st @ [row], history = history st\<rparr> \<and>
               r = Inl CommitFailed) \<and>
            (f \<noteq> Some 0 \<and> f \<noteq> Some 1 \<longrightarrow>
               persisted db = \<lparr>prompts = prompts st @ [row], history = history st @ [entry]\<rparr> \<and>
               r = Inr row)"
  using assms find_new_id [of "new_prompt (prompts st) now prompt by" "prompts st"]
  by (cases f rule: fails_cases)
     (auto simp add: create_prompt_def new_prompt_def history_row_def log_prompt_change_def
        get_prompt_def get_prompt_version_def session_defs Let_def numeral_2_eq_2)

lemma update_prompt_stage:
  assumes "id' p \<in> id' ` set (prompts st)" and "any_change u p"
      and "update_prompt (open_session st f now) p u by = (db, r)"
  shows "let p2 = (applied u p)\<lparr>updated_at := now\<rparr>;
             entry = history_row (history st) now p2 by ''update'' (Some (diffs u p))
         in (f = Some 0 \<longrightarrow> persisted db = st \<and> r = Inl CommitFailed) \<and>
            (f = Some 1 \<longrightarrow>
               persisted db = \<lparr>prompts = saved p2 (prompts st), history = history st\<rparr> \<and>
               r = Inl CommitFailed) \<and>
            (f \<noteq> Some 0 \<and> f \<noteq> Some 1 \<longrightarrow>
               persisted db = \<lparr>prompts = saved p2 (prompts st), history = history st @ [entry]\<rparr> \<and>
               r = Inr p2)"
proof -
  obtain c cs where chg: "diffs u p = c # cs"
    using assms(2) diffs_empty [of u p] by (cases "diffs u p") auto
  show ?thesis
    using assms(1,3) chg
    by (cases f rule: fails_cases)
       (auto simp add: update_prompt_def track_changes_eq applied_fixed history_row_def
          log_prompt_change_def get_prompt_def session_defs Let_def find_saved numeral_2_eq_2)
qed

lemma update_prompt_noop:
  "\<not> any_change u p \<Longrightarrow> update_prompt db p u by = (db, Inr (applied u p))"
  using diffs_empty [of u p] by (simp add: update_prompt_def track_changes_eq)

lemma delete_prompt_stage:
  assumes "find (\<lambda>q. id' q = id' p) (prompts st) = Some p"
      and "delete_prompt (open_session st f now) (Some p) by = (db, r)"
  shows "let entry = history_row (history st) now p by ''delete''
                       (Some [(''status'', JStr (status_str (status p)))])
         in (f = Some 0 \<longrightarrow> persisted db = st \<and> r = Inl CommitFailed) \<and>
            (f = Some 1 \<longrightarrow>
               persisted db = \<lparr>prompts = prompts st, history = history st @ [entry]\<rparr> \<and>
               r = Inl CommitFailed) \<and>
            (f \<noteq> Some 0 \<and> f \<noteq> Some 1 \<longrightarrow>
               persisted db = \<lparr>prompts = saved (archived now p) (prompts st),
                               history = history st @ [entry]\<rparr> \<and>
               r = Inr True)"
  using assms
  by (cases f rule: fails_cases)
     (auto simp add: history_row_def log_prompt_change_def get_prompt_def session_defs Let_def
        archived_def numeral_2_eq_2)

lemma hard_delete_prompt_stage:
  assumes "hard_delete_prompt (open_session st f now) p = (db, r)"
  shows "(f = Some 0 \<longrightarrow> persisted db = st \<and> r = Inr False) \<and>
         (f \<noteq> Some 0 \<longrightarrow>
            persisted db = \<lparr>prompts = filter (\<lambda>q. id' q \<noteq> id' p) (prompts st),
                            history = filter (\<lambda>h. prompt_id h \<noteq> id' p) (history st)\<rparr> \<and>
            r = Inr True)"
  using assms
  by (cases f rule: fails_cases)
     (auto simp add: hard_delete_prompt_def session_defs Let_def numeral_2_eq_2)

lemma set_active_version_stage_none:
  assumes "find (\<lambda>p. name p = name b \<and> is_active p \<and> id' p \<noteq> id' b) (prompts st) = None"
      and "id' b \<in> id' ` set (prompts st)"
      and "set_active_version (open_session st f now) b by = (db, r)"
  shows "let entry = history_row (history st) now (activated now b) by
                       ''set_as_live_version'' None
         in (f = Some 0 \<longrightarrow> persisted db = st \<and> r = Inl CommitFailed) \<and>
            (f \<noteq> Some 0 \<longrightarrow>
               persisted db = \<lparr>prompts = saved (activated now b) (prompts st),
                               history = history st @ [entry]\<rparr> \<and>
               r = (if f = Some 1 then Inl CommitFailed else Inr (activated now b)))"
  using assms
  by (cases f rule: fails_cases)
     (auto simp add: set_active_version_def archive_existing_active_def history_row_def
        log_prompt_change_def get_prompt_def session_defs Let_def find_saved
        activated_def numeral_2_eq_2)

lemma set_active_version_stage_some:
  assumes "find (\<lambda>p. name p = name b \<and> is_active p \<and> id' p \<noteq> id' b) (prompts st) = Some a"
      and "id' b \<in> id' ` set (prompts st)"
      and "set_active_version (open_session st f now) b by = (db, r)"
  shows "let e1 = history_row (history st) now (archived now a) ''system'' ''auto_archived''
                    (Some [(''status'', JStr ''active -> archived''),
                           (''reason'', JStr (''replaced by v'' @ version b))]);
             e2 = history_row (history st @ [e1]) now (activated now b) by
                    ''set_as_live_version'' None;
             ps1 = saved (archived now a) (prompts st)
         in (f = Some 0 \<longrightarrow> persisted db = st \<and> r = Inl CommitFailed) \<and>
            (f = Some 1 \<longrightarrow>
               persisted db = \<lparr>prompts = ps1, history = history st @ [e1]\<rparr> \<and>
               r = Inl CommitFailed) \<and>
            (f \<noteq> Some 0 \<and> f \<noteq> Some 1 \<longrightarrow>
               persisted db = \<lparr>prompts = saved (activated now b) ps1,
                               history = history st @ [e1, e2]\<rparr> \<and>
               r = (if f = Some 2 then Inl CommitFailed else Inr (activated now b)))"
proof -
  have a: "id' a \<in> id' ` set (prompts st)"
    using find_Some_mem [OF assms(1)] by blast
  show ?thesis
    using assms a
    by (cases f rule: fails_cases)
       (auto simp add: set_active_version_def archive_existing_active_def history_row_def
          log_prompt_change_def get_prompt_def session_defs Let_def find_saved id_set_saved
          activated_def archived_def numeral_2_eq_2)
qed

lemma at_most_one_iff:
  "distinct xs \<Longrightarrow>
     (length (filter P xs) \<le> 1) = (\<forall>x \<in> set xs. \<forall>y \<in> set xs. P x \<longrightarrow> P y \<longrightarrow> x = y)"
proof (induction xs)
  case Nil show ?case by simp
next
  case (Cons a xs)
  then have IH: "(length (filter P xs) \<le> 1) = (\<forall>x \<in> set xs. \<forall>y \<in> set xs. P x \<longrightarrow> P y \<longrightarrow> x = y)"
    and a: "a \<notin> set xs" by simp_all
  show ?case
  proof (cases "P a")
    case False
    then show ?thesis using IH by auto
  next
    case True
    have "(length (filter P (a # xs)) \<le> 1) = (filter P xs = [])" using True by simp
    also have "\<dots> = (\<forall>x \<in> set xs. \<not> P x)" by (simp add: filter_empty_conv)
    also have "\<dots> = (\<forall>x \<in> set (a # xs). \<forall>y \<in> set (a # xs). P x \<longrightarrow> P y \<longrightarrow> x = y)"
      using True a by auto
    finally show ?thesis .
  qed
qed

lemma one_live_iff:
  "one_live n (prompts st) \<longleftrightarrow> primary_key st \<and> live_count st n \<le> 1"
proof (cases "distinct (map id' (prompts st))")
  case False
  then show ?thesis by (simp add: one_live_def primary_key_def)
next
  case True
  then have "distinct (prompts st)" by (rule distinct_map [THEN iffD1, THEN conjunct1])
  from at_most_one_iff [OF this, of "\<lambda>p. name p = n \<and> is_active p"] True
  show ?thesis by (simp add: one_live_def primary_key_def live_count_def)
qed

lemma mem_saved:
  "x \<in> set (saved p ps) \<longleftrightarrow> (x = p \<and> id' p \<in> id' ` set ps) \<or> (x \<in> set ps \<and> id' x \<noteq> id' p)"
  by (induction ps) (auto simp: saved_def)

lemma one_live_new:
  assumes "one_live n ps" and "id' p = next_id (map id' ps)" and "\<not> is_active p"
  shows "one_live n (ps @ [p])"
  using assms next_id_fresh [of _ "map id' ps"]
  by (auto simp: one_live_def)

lemma one_live_saved_other:
  assumes "one_live n ps" and "\<not> (name p = n \<and> is_active p)"
  shows "one_live n (saved p ps)"
  using assms by (auto simp: one_live_def ids_saved mem_saved)

lemma one_live_saved_same:
  assumes "one_live n ps" and "q \<in> set ps" and "id' p = id' q" "name p = name q"
      and "is_active p = is_active q"
  shows "one_live n (saved p ps)"
  unfolding one_live_def
proof (intro conjI ballI impI)
  show "distinct (map id' (saved p ps))" using assms(1) by (simp add: one_live_def ids_saved)
next
  fix x y
  assume x: "x \<in> set (saved p ps)" and y: "y \<in> set (saved p ps)"
    and lx: "name x = n \<and> is_active x" and ly: "name y = n \<and> is_active y"
  have *: "\<And>z. z \<in> set ps \<Longrightarrow> name z = n \<and> is_active z \<Longrightarrow> name p = n \<and> is_active p \<Longrightarrow> id' z = id' p"
    using assms by (auto simp: one_live_def)
  show "x = y"
    using x y lx ly assms(1) * by (auto simp: mem_saved one_live_def)
qed

lemma one_live_filter:
  "one_live n ps \<Longrightarrow> one_live n (filter R ps)"
  by (auto simp: one_live_def distinct_map_filter)

lemma one_live_activate_none:
  assumes "one_live n ps"
      and "find (\<lambda>p. name p = name b \<and> is_active p \<and> id' p \<noteq> id' b) ps = None"
  shows "one_live n (saved (activated now b) ps)"
proof (cases "name b = n")
  case False
  then have "\<not> (name (activated now b) = n \<and> is_active (activated now b))"
    by (simp add: activated_def)
  with assms(1) show ?thesis by (rule one_live_saved_other)
next
  case True
  have none: "\<And>q. q \<in> set ps \<Longrightarrow> name q = n \<Longrightarrow> is_active q \<Longrightarrow> id' q = id' b"
    using assms(2) True by (auto simp: find_None_iff)
  show ?thesis
    using assms(1) none
    by (auto simp: one_live_def ids_saved mem_saved activated_def)
qed

lemma one_live_activate_some:
  assumes "one_live n ps"
      and "find (\<lambda>p. name p = name b \<and> is_active p \<and> id' p \<noteq> id' b) ps = Some a"
  shows "one_live n (saved (activated now b) (saved (archived now a) ps))"
proof (cases "name b = n")
  case False
  have "\<not> (name (archived now a) = n \<and> is_active (archived now a))"
    by (simp add: archived_def)
  with assms(1) have "one_live n (saved (archived now a) ps)"
    by (rule one_live_saved_other)
  moreover have "\<not> (name (activated now b) = n \<and> is_active (activated now b))"
    using False by (simp add: activated_def)
  ultimately show ?thesis by (rule one_live_saved_other)
next
  case True
  have a: "a \<in> set ps" "name a = n" "is_active a" "id' a \<noteq> id' b"
    using find_Some_mem [OF assms(2)] True by auto
  have only: "\<And>q. q \<in> set ps \<Longrightarrow> name q = n \<Longrightarrow> is_active q \<Longrightarrow> q = a"
    using assms(1) a by (auto simp: one_live_def)
  show ?thesis
    unfolding one_live_def
  proof (intro conjI ballI impI)
    show "distinct (map id' (saved (activated now b) (saved (archived now a) ps)))"
      using assms(1) by (simp add: one_live_def ids_saved)
  next
    fix x y
    assume x: "x \<in> set (saved (activated now b) (saved (archived now a) ps))"
       and y: "y \<in> set (saved (activated now b) (saved (archived now a) ps))"
       and lx: "name x = n \<and> is_active x" and ly: "name y = n \<and> is_active y"
    have "\<And>z. z \<in> set (saved (activated now b) (saved (archived now a) ps)) \<Longrightarrow>
            name z = n \<and> is_active z \<Longrightarrow> z = activated now b"
      using only by (auto simp: mem_saved archived_def activated_def)
    then show "x = y" using x y lx ly by metis
  qed
qed

lemma get_prompt_open: "get_prompt (open_session st f now) pid = find (\<lambda>p. id' p = pid) (prompts st)"
  by (simp add: get_prompt_def open_session_def)

lemma find_id_mem:
  assumes "find (\<lambda>q. id' q = i) ps = Some p"
  shows "p \<in> set ps" and "id' p = i" and "id' p \<in> id' ` set ps"
  using find_Some_mem [OF assms] by auto

lemma create_prompt_one_live:
  assumes "one_live n (prompts st)"
  shows "one_live n (prompts (persisted (fst (create_prompt (open_session st f now) prompt by))))"
proof (cases "find (\<lambda>p. name p = pc_name prompt \<and> version p = pc_version prompt) (prompts st)")
  case (Some existing)
  then show ?thesis using assms
    by (simp add: create_prompt_def get_prompt_version_def open_session_def)
next
  case None
  obtain db r where run: "create_prompt (open_session st f now) prompt by = (db, r)"
    by (cases "create_prompt (open_session st f now) prompt by")
  let ?row = "new_prompt (prompts st) now prompt by"
  have "prompts (persisted db) = prompts st \<or> prompts (persisted db) = prompts st @ [?row]"
    using create_prompt_stage [OF None run] by (cases f rule: fails_cases) (simp_all add: Let_def)
  moreover have "one_live n (prompts st @ [?row])"
    using assms by (rule one_live_new) (simp_all add: new_prompt_def)
  ultimately show ?thesis using assms run by auto
qed

lemma update_prompt_one_live:
  assumes "one_live n (prompts st)" and "find (\<lambda>q. id' q = pid) (prompts st) = Some p"
  shows "one_live n (prompts (persisted (fst (update_prompt (open_session st f now) p u by))))"
proof (cases "any_change u p")
  case False
  then show ?thesis using assms(1) by (simp add: update_prompt_noop open_session_def)
next
  case True
  obtain db r where run: "update_prompt (open_session st f now) p u by = (db, r)"
    by (cases "update_prompt (open_session st f now) p u by")
  have p: "p \<in> set (prompts st)" and pin: "id' p \<in> id' ` set (prompts st)"
    using find_id_mem [OF assms(2)] by blast+
  let ?p2 = "(applied u p)\<lparr>updated_at := now\<rparr>"
  have "prompts (persisted db) = prompts st \<or> prompts (persisted db) = saved ?p2 (prompts st)"
    using update_prompt_stage [OF pin True run]
    by (cases f rule: fails_cases) (simp_all add: Let_def)
  moreover have "one_live n (saved ?p2 (prompts st))"
    using assms(1) p by (rule one_live_saved_same) (simp_all add: applied_fixed)
  ultimately show ?thesis using assms(1) run by auto
qed

lemma delete_prompt_one_live:
  assumes "one_live n (prompts st)" and "find (\<lambda>q. id' q = pid) (prompts st) = Some p"
  shows "one_live n (prompts (persisted (fst (delete_prompt (open_session st f now) (Some p) by))))"
proof -
  obtain db r where run: "delete_prompt (open_session st f now) (Some p) by = (db, r)"
    by (cases "delete_prompt (open_session st f now) (Some p) by")
  have found: "find (\<lambda>q. id' q = id' p) (prompts st) = Some p"
    using assms(2) find_id_mem(2) [OF assms(2)] by simp
  have "prompts (persisted db) = prompts st \<or>
        prompts (persisted db) = saved (archived now p) (prompts st)"
    using delete_prompt_stage [OF found run]
    by (cases f rule: fails_cases) (simp_all add: Let_def)
  moreover have "one_live n (saved (archived now p) (prompts st))"
    using assms(1) by (rule one_live_saved_other) (simp add: archived_def)
  ultimately show ?thesis using assms(1) run by auto
qed

lemma hard_delete_prompt_one_live:
  assumes "one_live n (prompts st)"
  shows "one_live n (prompts (persisted (fst (hard_delete_prompt (open_session st f now) p))))"
proof -
  obtain db r where run: "hard_delete_prompt (open_session st f now) p = (db, r)"
    by (cases "hard_delete_prompt (open_session st f now) p")
  have "prompts (persisted db) = prompts st \<or>
        prompts (persisted db) = filter (\<lambda>q. id' q \<noteq> id' p) (prompts st)"
    using hard_delete_prompt_stage [OF run]
    by (cases f rule: fails_cases) simp_all
  then show ?thesis using assms run one_live_filter [OF assms] by auto
qed

lemma set_active_version_one_live:
  assumes "one_live n (prompts st)" and "find (\<lambda>q. id' q = pid) (prompts st) = Some b"
  shows "one_live n (prompts (persisted (fst (set_active_version (open_session st f now) b by))))"
proof -
  obtain db r where run: "set_active_version (open_session st f now) b by = (db, r)"
    by (cases "set_active_version (open_session st f now) b by")
  have b: "id' b \<in> id' ` set (prompts st)" by (rule find_id_mem(3) [OF assms(2)])
  show ?thesis
  proof (cases "find (\<lambda>p. name p = name b \<and> is_active p \<and> id' p \<noteq> id' b) (prompts st)")
    case None
    have "prompts (persisted db) = prompts st \<or>
          prompts (persisted db) = saved (activated now b) (prompts st)"
      using set_active_version_stage_none [OF None b run]
      by (cases f rule: fails_cases) (simp_all add: Let_def)
    then show ?thesis using assms(1) run one_live_activate_none [OF assms(1) None] by auto
  next
    case (Some a)
    have "prompts (persisted db) = prompts st \<or>
          prompts (persisted db) = saved (archived now a) (prompts st) \<or>
          prompts (persisted db) = saved (activated now b) (saved (archived now a) (prompts st))"
      using set_active_version_stage_some [OF Some b run]
      by (cases f rule: fails_cases) (simp_all add: Let_def)
    moreover have "one_live n (saved (archived now a) (prompts st))"
      using assms(1) by (rule one_live_saved_other) (simp add: archived_def)
    ultimately show ?thesis
      using assms(1) run one_live_activate_some [OF assms(1) Some] by auto
  qed
qed

lemma request_one_live:
  assumes "one_live n (prompts st)"
  shows "one_live n (prompts (request st r))"
proof -
  obtain op f now where r: "r = (op, f, now)" by (cases r)
  show ?thesis
  proof (cases op)
    case (CreatePrompt prompt who)
    then show ?thesis using r create_prompt_one_live [OF assms] by (simp add: request_def)
  next
    case (UpdatePrompt pid u who)
    then show ?thesis using r assms update_prompt_one_live [OF assms]
      by (cases "find (\<lambda>p. id' p = pid) (prompts st)")
         (simp_all add: request_def get_prompt_open, simp add: open_session_def)
  next
    case (SetActiveVersion pid who)
    then show ?thesis using r assms set_active_version_one_live [OF assms]
      by (cases "find (\<lambda>p. id' p = pid) (prompts st)")
         (simp_all add: request_def get_prompt_open, simp add: open_session_def)
  next
    case (DeletePrompt pid who)
    then show ?thesis using r assms delete_prompt_one_live [OF assms]
      by (cases "find (\<lambda>p. id' p = pid) (prompts st)")
         (simp_all add: request_def get_prompt_open, simp add: open_session_def)
  next
    case (HardDeletePrompt pid)
    then show ?thesis using r assms hard_delete_prompt_one_live [OF assms]
      by (cases "find (\<lambda>p. id' p = pid) (prompts st)")
         (simp_all add: request_def get_prompt_open, simp add: open_session_def)
  qed
qed

lemma requests_one_live:
  "one_live n (prompts st) \<Longrightarrow> one_live n (prompts (requests st rs))"
  unfolding requests_def
  by (induction rs arbitrary: st) (simp_all add: request_one_live)

lemma find_saved_other:
  "id' p \<noteq> i \<Longrightarrow> find (\<lambda>q. id' q = i) (saved p ps) = find (\<lambda>q. id' q = i) ps"
  by (induction ps) (auto simp: saved_def)

lemma find_unique:
  "a \<in> set ps \<Longrightarrow> P a \<Longrightarrow> (\<forall>x \<in> set ps. P x \<longrightarrow> x = a) \<Longrightarrow> find P ps = Some a"
proof (induction ps)
  case Nil
  then show ?case by simp
next
  case (Cons y ys)
  show ?case
  proof (cases "P y")
    case True
    with Cons.prems(3) have "y = a" by simp
    with True show ?thesis by simp
  next
    case False
    with Cons.prems(1,2) have "a \<in> set ys" by (cases "a = y") simp_all
    moreover have "\<forall>x \<in> set ys. P x \<longrightarrow> x = a" using Cons.prems(3) by simp
    ultimately have "find P ys = Some a" using Cons.prems(2) by (intro Cons.IH)
    with False show ?thesis by simp
  qed
qed

lemma applied_unchanged: "\<not> any_change u p \<Longrightarrow> applied u p = p"
  by (cases "pu_content u"; cases "pu_description u"; cases "pu_tags u"; cases "pu_metadata u")
     (auto simp add: applied_def any_change_def content_changed_def description_changed_def
        tags_changed_def metadata_changed_def split: option.splits)

subsection \<open>The history table under each operation\<close>

lemma create_prompt_history:
  "\<exists>new. history (persisted (fst (create_prompt (open_session st f now) prompt who))) =
           history st @ new"
proof (cases "find (\<lambda>p. name p = pc_name prompt \<and> version p = pc_version prompt) (prompts st)")
  case (Some existing)
  then show ?thesis
    by (simp add: create_prompt_def get_prompt_version_def open_session_def)
next
  case None
  obtain db r where run: "create_prompt (open_session st f now) prompt who = (db, r)"
    by (cases "create_prompt (open_session st f now) prompt who")
  show ?thesis
    using create_prompt_stage [OF None run] run
    by (cases f rule: fails_cases) (simp_all add: Let_def)
qed

lemma update_prompt_history:
  assumes "find (\<lambda>q. id' q = pid) (prompts st) = Some p"
  shows "\<exists>new. history (persisted (fst (update_prompt (open_session st f now) p u who))) =
           history st @ new"
proof (cases "any_change u p")
  case False
  then show ?thesis by (simp add: update_prompt_noop open_session_def)
next
  case True
  obtain db r where run: "update_prompt (open_session st f now) p u who = (db, r)"
    by (cases "update_prompt (open_session st f now) p u who")
  have pin: "id' p \<in> id' ` set (prompts st)" by (rule find_id_mem(3) [OF assms])
  show ?thesis
    using update_prompt_stage [OF pin True run] run
    by (cases f rule: fails_cases) (simp_all add: Let_def)
qed

lemma delete_prompt_history:
  assumes "find (\<lambda>q. id' q = pid) (prompts st) = Some p"
  shows "\<exists>new. history (persisted (fst (delete_prompt (open_session st f now) (Some p) who))) =
           history st @ new"
proof -
  obtain db r where run: "delete_prompt (open_session st f now) (Some p) who = (db, r)"
    by (cases "delete_prompt (open_session st f now) (Some p) who")
  have found: "find (\<lambda>q. id' q = id' p) (prompts st) = Some p"
    using assms find_id_mem(2) [OF assms] by simp
  show ?thesis
    using delete_prompt_stage [OF found run] run
    by (cases f rule: fails_cases) (simp_all add: Let_def)
qed

lemma set_active_version_history:
  assumes "find (\<lambda>q. id' q = pid) (prompts st) = Some b"
  shows "\<exists>new. history (persisted (fst (set_active_version (open_session st f now) b who))) =
           history st @ new"
proof -
  obtain db r where run: "set_active_version (open_session st f now) b who = (db, r)"
    by (cases "set_active_version (open_session st f now) b who")
  have bin: "id' b \<in> id' ` set (prompts st)" by (rule find_id_mem(3) [OF assms])
  show ?thesis
  proof (cases "find (\<lambda>p. name p = name b \<and> is_active p \<and> id' p \<noteq> id' b) (prompts st)")
    case None
    show ?thesis
      using set_active_version_stage_none [OF None bin run] run
      by (cases f rule: fails_cases) (simp_all add: Let_def)
  next
    case (Some a)
    show ?thesis
      using set_active_version_stage_some [OF Some bin run] run
      by (cases f rule: fails_cases) (simp_all add: Let_def)
  qed
qed

lemma hard_delete_prompt_history:
  "history (persisted (fst (hard_delete_prompt (open_session st f now) p))) =
     (if f = Some 0 then history st else filter (\<lambda>h. prompt_id h \<noteq> id' p) (history st))"
proof -
  obtain db r where run: "hard_delete_prompt (open_session st f now) p = (db, r)"
    by (cases "hard_delete_prompt (open_session st f now) p")
  show ?thesis
    using hard_delete_prompt_stage [OF run] run
    by (cases f rule: fails_cases) simp_all
qed

subsection \<open>The latest version and the version arithmetic\<close>





section \<open>The claims\<close>

text \<open>
  C1. For every name \<open>n\<close> and every sequence of engine operations (\<open>create_prompt\<close>,
  \<open>update_prompt\<close>, \<open>set_active_version\<close>, \<open>delete_prompt\<close>, \<open>hard_delete_prompt\<close>)
  that starts in a state where at most one version of \<open>n\<close> has \<open>is_active = true\<close>, at most
  one version of \<open>n\<close> has \<open>is_active = true\<close> after each operation, whichever commit of
  an operation fails: the database then holds what the commits before it wrote, so the bound
  holds at every commit.
\<close>

theorem at_most_one_live_version:
  assumes "primary_key st" and "live_count st n \<le> 1"
  shows "live_count (requests st rs) n \<le> 1"
  using assms requests_one_live [of n st rs] by (simp add: one_live_iff)

theorem at_most_one_live_version_witness:
  "primary_key live_and_draft \<and> live_count live_and_draft ''p'' \<le> 1 \<and>
   live_count (requests live_and_draft
      [(SetActiveVersion 2 ''bob'', None, 5), (DeletePrompt 2 ''bob'', Some 1, 6)]) ''p'' \<le> 1"
proof -
  have pk: "primary_key live_and_draft"
    by (simp add: primary_key_def live_and_draft_def prompt_a_def prompt_b_def)
  have one: "live_count live_and_draft ''p'' \<le> 1"
    by (simp add: live_count_def live_and_draft_def prompt_a_def prompt_b_def)
  show ?thesis
    using pk one at_most_one_live_version [OF pk one] by simp
qed

text \<open>
  C2, as the code has it. \<open>set_active_version\<close> hands the live status over in two commits:
  the first archives the version that was live and writes its \<open>auto_archived\<close> entry, the
  second sets the target live and writes its \<open>set_as_live_version\<close> entry. Each history
  entry is committed together with its state change. When the first commit fails nothing has
  changed; when the second fails the prior live version stays archived and the target is not
  live; the third commit has nothing left to write.
\<close>

theorem set_active_version_two_commits:
  assumes "find (\<lambda>p. name p = name b \<and> is_active p \<and> id' p \<noteq> id' b) (prompts st) = Some a"
      and "get_prompt (open_session st f now) (id' b) = Some b"
      and "set_active_version (open_session st f now) b by = (db, r)"
  shows "let e1 = history_row (history st) now (archived now a) ''system'' ''auto_archived''
                    (Some [(''status'', JStr ''active -> archived''),
                           (''reason'', JStr (''replaced by v'' @ version b))]);
             e2 = history_row (history st @ [e1]) now (activated now b) by
                    ''set_as_live_version'' None;
             ps1 = saved (archived now a) (prompts st)
         in (f = Some 0 \<longrightarrow> persisted db = st \<and> r = Inl CommitFailed) \<and>
            (f = Some 1 \<longrightarrow>
               persisted db = \<lparr>prompts = ps1, history = history st @ [e1]\<rparr> \<and>
               r = Inl CommitFailed) \<and>
            (f \<noteq> Some 0 \<and> f \<noteq> Some 1 \<longrightarrow>
               persisted db = \<lparr>prompts = saved (activated now b) ps1,
                               history = history st @ [e1, e2]\<rparr> \<and>
               r = (if f = Some 2 then Inl CommitFailed else Inr (activated now b)))"
proof -
  have "find (\<lambda>q. id' q = id' b) (prompts st) = Some b"
    using assms(2) by (simp add: get_prompt_open)
  then have "id' b \<in> id' ` set (prompts st)" by (rule find_id_mem(3))
  with assms(1) show ?thesis using assms(3) by (rule set_active_version_stage_some)
qed

theorem set_active_version_two_commits_witness:
  "\<exists>db r. set_active_version (open_session live_and_draft (Some 1) 5) prompt_b ''bob'' = (db, r) \<and>
     prompts (persisted db) = [archived 5 prompt_a, prompt_b] \<and>
     map action (history (persisted db)) = [''auto_archived''] \<and> r = Inl CommitFailed"
proof -
  have a: "find (\<lambda>p. name p = name prompt_b \<and> is_active p \<and> id' p \<noteq> id' prompt_b)
             (prompts live_and_draft) = Some prompt_a"
    by (simp add: live_and_draft_def prompt_a_def prompt_b_def)
  have b: "get_prompt (open_session live_and_draft (Some 1) 5) (id' prompt_b) = Some prompt_b"
    by (simp add: get_prompt_open live_and_draft_def prompt_a_def prompt_b_def)
  obtain db r where
    run: "set_active_version (open_session live_and_draft (Some 1) 5) prompt_b ''bob'' = (db, r)"
    by (cases "set_active_version (open_session live_and_draft (Some 1) 5) prompt_b ''bob''")
  show ?thesis
    using set_active_version_two_commits [OF a b run] run
    by (simp add: Let_def live_and_draft_def saved_def history_row_def archived_def
          prompt_a_def prompt_b_def)
qed

text \<open>
  C2 as stated fails: with \<open>prompt_a\<close> live and \<open>prompt_b\<close> a draft, the second commit
  of the activation of \<open>prompt_b\<close> fails, and the database holds \<open>prompt_a\<close> archived and
  \<open>prompt_b\<close> still a draft that is not live.
\<close>

theorem set_active_version_atomic_counterexample:
  "map status (prompts (persisted (fst (set_active_version
      (open_session live_and_draft (Some 1) 5) prompt_b ''bob'')))) = [ARCHIVED, DRAFT] \<and>
   map is_active (prompts (persisted (fst (set_active_version
      (open_session live_and_draft (Some 1) 5) prompt_b ''bob'')))) = [False, False] \<and>
   map action (history (persisted (fst (set_active_version
      (open_session live_and_draft (Some 1) 5) prompt_b ''bob'')))) = [''auto_archived'']"
  by (simp add: set_active_version_def archive_existing_active_def log_prompt_change_def
        get_prompt_def session_defs Let_def saved_def live_and_draft_def prompt_a_def
        prompt_b_def next_id_def)

text \<open>
  C3, as the code has it. \<open>create_prompt\<close> commits the new row first and its \<open>create\<close>
  history entry in a second commit. When the first commit fails neither persists; when both
  succeed both persist; when only the second fails the row persists without a history entry.
  A history entry without its row is no outcome.
\<close>

theorem create_prompt_two_commits:
  assumes "get_prompt_version (open_session st f now) (pc_name prompt) (pc_version prompt) = None"
      and "create_prompt (open_session st f now) prompt by = (db, r)"
  shows "let row = new_prompt (prompts st) now prompt by;
             entry = history_row (history st) now row by ''create''
                       (Some [(''status'', JStr ''draft'')])
         in (f = Some 0 \<longrightarrow> persisted db = st \<and> r = Inl DatabaseError) \<and>
            (f = Some 1 \<longrightarrow>
               persisted db = \<lparr>prompts = prompts st @ [row], history = history st\<rparr> \<and>
               r = Inl CommitFailed) \<and>
            (f \<noteq> Some 0 \<and> f \<noteq> Some 1 \<longrightarrow>
               persisted db = \<lparr>prompts = prompts st @ [row], history = history st @ [entry]\<rparr> \<and>
               r = Inr row)"
proof -
  have "find (\<lambda>p. name p = pc_name prompt \<and> version p = pc_version prompt) (prompts st) = None"
    using assms(1) by (simp add: get_prompt_version_def open_session_def)
  then show ?thesis using assms(2) by (rule create_prompt_stage)
qed

theorem create_prompt_two_commits_witness:
  "\<exists>db r. create_prompt (open_session empty_store (Some 1) 1) first_prompt ''ann'' = (db, r) \<and>
      persisted db = \<lparr>prompts = [new_prompt [] 1 first_prompt ''ann''], history = []\<rparr> \<and>
      r = Inl CommitFailed"
proof -
  have none: "get_prompt_version (open_session empty_store (Some 1) 1)
                (pc_name first_prompt) (pc_version first_prompt) = None"
    by (simp add: get_prompt_version_def open_session_def empty_store_def)
  obtain db r where
    run: "create_prompt (open_session empty_store (Some 1) 1) first_prompt ''ann'' = (db, r)"
    by (cases "create_prompt (open_session empty_store (Some 1) 1) first_prompt ''ann''")
  show ?thesis
    using create_prompt_two_commits [OF none run] run
    by (simp add: Let_def empty_store_def)
qed

text \<open>
  C3 as stated fails: the commit of the history entry fails, and the new row is in the
  database with no history entry.
\<close>

theorem create_prompt_atomic_counterexample:
  "map version (prompts (persisted (fst (create_prompt (open_session empty_store (Some 1) 1)
       first_prompt ''ann'')))) = [''1.0.0''] \<and>
   history (persisted (fst (create_prompt (open_session empty_store (Some 1) 1)
       first_prompt ''ann''))) = []"
  by (simp add: create_prompt_def get_prompt_version_def log_prompt_change_def get_prompt_def
        session_defs Let_def empty_store_def first_prompt_def next_id_def)

text \<open>
  C4. A name has exactly the two versions \<open>a\<close> (live, \<open>is_active = true\<close>) and \<open>b\<close>
  (draft, \<open>is_active = false\<close>). Activating \<open>b\<close> leaves \<open>a\<close> archived and not active,
  \<open>b\<close> live and active, and exactly two new history entries: \<open>auto_archived\<close> by
  \<open>system\<close> for \<open>a\<close>, then \<open>set_as_live_version\<close> by the caller for \<open>b\<close>.
\<close>

theorem set_active_version_auto_archives:
  assumes "primary_key st" and "a \<in> set (prompts st)" and "b \<in> set (prompts st)"
      and "name a = name b" and "a \<noteq> b"
      and "status a = ACTIVE" and "is_active a" and "status b = DRAFT" and "\<not> is_active b"
      and "\<forall>p \<in> set (prompts st). name p = name b \<longrightarrow> p = a \<or> p = b"
      and "set_active_version (open_session st None now) b by = (db, r)"
  shows "r = Inr (activated now b) \<and>
         get_prompt (open_session (persisted db) None now) (id' a) = Some (archived now a) \<and>
         status (archived now a) = ARCHIVED \<and> \<not> is_active (archived now a) \<and>
         get_prompt (open_session (persisted db) None now) (id' b) = Some (activated now b) \<and>
         status (activated now b) = ACTIVE \<and> is_active (activated now b) \<and>
         (\<exists>e1 e2. history (persisted db) = history st @ [e1, e2] \<and>
            action e1 = ''auto_archived'' \<and> changed_by e1 = ''system'' \<and> prompt_id e1 = id' a \<and>
            action e2 = ''set_as_live_version'' \<and> changed_by e2 = by \<and> prompt_id e2 = id' b)"
proof -
  have ids: "id' a \<noteq> id' b"
    using assms(1,2,3,5) by (auto simp: primary_key_def distinct_map inj_on_def)
  have a: "find (\<lambda>p. name p = name b \<and> is_active p \<and> id' p \<noteq> id' b) (prompts st) = Some a"
  proof (rule find_unique)
    show "a \<in> set (prompts st)" by (rule assms(2))
    show "name a = name b \<and> is_active a \<and> id' a \<noteq> id' b" using assms(4,7) ids by simp
    show "\<forall>x \<in> set (prompts st). name x = name b \<and> is_active x \<and> id' x \<noteq> id' b \<longrightarrow> x = a"
      using assms(9,10) by auto
  qed
  have bin: "id' b \<in> id' ` set (prompts st)" using assms(3) by simp
  have ain: "id' a \<in> id' ` set (prompts st)" using assms(2) by simp
  note stage = set_active_version_stage_some [OF a bin assms(11)]
  have fa: "find (\<lambda>q. id' q = id' a)
              (saved (activated now b) (saved (archived now a) (prompts st))) = Some (archived now a)"
    using ids ain by (simp add: find_saved_other find_saved activated_def archived_def)
  have fb: "find (\<lambda>q. id' q = id' b)
              (saved (activated now b) (saved (archived now a) (prompts st))) = Some (activated now b)"
    using bin by (simp add: find_saved id_set_saved activated_def)
  show ?thesis
    using stage fa fb
    by (simp add: Let_def get_prompt_open history_row_def) (simp add: archived_def activated_def)
qed

theorem set_active_version_auto_archives_witness:
  "\<exists>db. set_active_version (open_session live_and_draft None 5) prompt_b ''bob'' =
           (db, Inr (activated 5 prompt_b)) \<and>
     get_prompt (open_session (persisted db) None 5) 1 = Some (archived 5 prompt_a) \<and>
     get_prompt (open_session (persisted db) None 5) 2 = Some (activated 5 prompt_b) \<and>
     map action (history (persisted db)) = [''auto_archived'', ''set_as_live_version'']"
proof -
  obtain db r where
    run: "set_active_version (open_session live_and_draft None 5) prompt_b ''bob'' = (db, r)"
    by (cases "set_active_version (open_session live_and_draft None 5) prompt_b ''bob''")
  have pk: "primary_key live_and_draft"
    by (simp add: primary_key_def live_and_draft_def prompt_a_def prompt_b_def)
  have a: "prompt_a \<in> set (prompts live_and_draft)" and b: "prompt_b \<in> set (prompts live_and_draft)"
    by (simp_all add: live_and_draft_def)
  have ab: "name prompt_a = name prompt_b" "prompt_a \<noteq> prompt_b"
    "status prompt_a = ACTIVE" "is_active prompt_a" "status prompt_b = DRAFT" "\<not> is_active prompt_b"
    by (simp_all add: prompt_a_def prompt_b_def)
  have only: "\<forall>p \<in> set (prompts live_and_draft). name p = name prompt_b \<longrightarrow> p = prompt_a \<or> p = prompt_b"
    by (simp add: live_and_draft_def)
  have ids: "id' prompt_a = 1" "id' prompt_b = 2" "history live_and_draft = []"
    by (simp_all add: prompt_a_def prompt_b_def live_and_draft_def)
  from set_active_version_auto_archives [OF pk a b ab only run]
  show ?thesis using run ids by auto
qed

text \<open>
  C5. The activation endpoint on a version that already has \<open>is_active = true\<close> returns
  that record and leaves the session as it was: no history entry is written and
  \<open>updated_at\<close> stays.
\<close>

theorem set_active_version_idempotent:
  assumes "get_prompt_version db n v = Some p" and "is_active p"
  shows "api_set_active_version db n v current_user = (db, Inr (convert_prompt_to_response p))"
  using assms by (simp add: api_set_active_version_def)

theorem set_active_version_idempotent_witness:
  "api_set_active_version (open_session live_and_draft None 7) ''p'' ''1.0.0'' ''bob'' =
     (open_session live_and_draft None 7, Inr (convert_prompt_to_response prompt_a))"
proof -
  have "get_prompt_version (open_session live_and_draft None 7) ''p'' ''1.0.0'' = Some prompt_a"
    by (simp add: get_prompt_version_def open_session_def live_and_draft_def prompt_a_def)
  moreover have "is_active prompt_a" by (simp add: prompt_a_def)
  ultimately show ?thesis by (rule set_active_version_idempotent)
qed

text \<open>
  C7. After a create call has returned its record, a second create call with the same name
  and version fails with the \<open>already exists\<close> error and leaves the database as it was: the
  first record is there unchanged and no history entry is added.
\<close>

theorem create_prompt_duplicate:
  assumes "create_prompt (open_session st f1 t1) prompt1 by1 = (db1, Inr p1)"
      and "pc_name prompt2 = pc_name prompt1" and "pc_version prompt2 = pc_version prompt1"
  shows "p1 \<in> set (prompts (persisted db1)) \<and>
         create_prompt (open_session (persisted db1) f2 t2) prompt2 by2 =
           (open_session (persisted db1) f2 t2, Inl AlreadyExists)"
proof (cases "find (\<lambda>p. name p = pc_name prompt1 \<and> version p = pc_version prompt1) (prompts st)")
  case (Some existing)
  then show ?thesis using assms(1)
    by (simp add: create_prompt_def get_prompt_version_def open_session_def)
next
  case None
  let ?row = "new_prompt (prompts st) t1 prompt1 by1"
  from create_prompt_stage [OF None assms(1)]
  have p1: "p1 = ?row" and ps: "prompts (persisted db1) = prompts st @ [?row]"
    by (cases f1 rule: fails_cases; simp add: Let_def)+
  have "find (\<lambda>p. name p = pc_name prompt2 \<and> version p = pc_version prompt2)
          (prompts st @ [?row]) = Some ?row"
    using None assms(2,3) by (simp add: find_app new_prompt_def)
  then show ?thesis using p1 ps
    by (simp add: create_prompt_def get_prompt_version_def open_session_def)
qed

theorem create_prompt_duplicate_witness:
  "\<exists>db1 p1. create_prompt (open_session empty_store None 1) first_prompt ''ann'' = (db1, Inr p1) \<and>
      create_prompt (open_session (persisted db1) None 2) (first_prompt\<lparr>pc_content := ''other''\<rparr>) ''bob'' =
        (open_session (persisted db1) None 2, Inl AlreadyExists)"
proof -
  obtain db1 p1 where
    run: "create_prompt (open_session empty_store None 1) first_prompt ''ann'' = (db1, Inr p1)"
    by (simp add: create_prompt_def get_prompt_version_def log_prompt_change_def get_prompt_def
        session_defs Let_def empty_store_def first_prompt_def next_id_def)
  from create_prompt_duplicate [OF run, of "first_prompt\<lparr>pc_content := ''other''\<rparr>" None 2 "''bob''"]
  show ?thesis using run by simp
qed

text \<open>
  C10, as the code has it. The \<open>delete\<close> history entry of \<open>delete_prompt\<close> is written
  before the prompt is archived, so its status is the status the version had before the call,
  whatever that was: draft, active, or archived for a version that was archived already.
\<close>

theorem delete_prompt_snapshot:
  assumes "get_prompt (open_session st f now) (id' p) = Some p" and "f \<noteq> Some 0"
      and "delete_prompt (open_session st f now) (Some p) by = (db, r)"
  shows "\<exists>entry. history (persisted db) = history st @ [entry] \<and>
           prompt_id entry = id' p \<and> action entry = ''delete'' \<and> changed_by entry = by \<and>
           h_status entry = status p \<and>
           changes entry = Some [(''status'', JStr (status_str (status p)))] \<and>
           (f \<noteq> Some 1 \<longrightarrow>
              get_prompt (open_session (persisted db) f now) (id' p) = Some (archived now p))"
proof -
  have found: "find (\<lambda>q. id' q = id' p) (prompts st) = Some p"
    using assms(1) by (simp add: get_prompt_open)
  note stage = delete_prompt_stage [OF found assms(3)]
  have "id' (archived now p) = id' p" by (simp add: archived_def)
  then have "find (\<lambda>q. id' q = id' p) (saved (archived now p) (prompts st)) = Some (archived now p)"
    using find_id_mem(3) [OF found] by (rule find_saved)
  then show ?thesis
    using stage assms(2)
    by (cases f rule: fails_cases) (simp_all add: Let_def history_row_def get_prompt_open)
qed

theorem delete_prompt_snapshot_witness:
  "\<exists>entry. history (persisted (fst (delete_prompt (open_session live_and_draft None 7)
                (Some prompt_a) ''bob''))) = [entry] \<and> h_status entry = ACTIVE"
proof -
  have found: "get_prompt (open_session live_and_draft None 7) (id' prompt_a) = Some prompt_a"
    by (simp add: get_prompt_open live_and_draft_def prompt_a_def)
  obtain db r where run: "delete_prompt (open_session live_and_draft None 7) (Some prompt_a) ''bob'' = (db, r)"
    by (cases "delete_prompt (open_session live_and_draft None 7) (Some prompt_a) ''bob''")
  show ?thesis
    using delete_prompt_snapshot [OF found _ run] run
    by (auto simp add: live_and_draft_def prompt_a_def)
qed

text \<open>
  C10 as stated fails: the soft delete of an archived version writes an entry whose status is
  archived.
\<close>

theorem delete_prompt_snapshot_counterexample:
  "map h_status (history (persisted (fst (delete_prompt (open_session retired None 7)
       (get_prompt (open_session retired None 7) 1) ''bob'')))) = [ARCHIVED]"
  by (simp add: retired_def prompt_a_def get_prompt_open log_prompt_change_def get_prompt_def
        session_defs Let_def)

text \<open>
  C9, as the code has it. \<open>update_prompt\<close> on a loaded version does nothing when no
  supplied value of content, description, tags or metadata differs from the current one,
  where the tags are compared as sets (their order and repetitions do not count) and the
  metadata by \<open>!=\<close> of dictionaries (the order of the keys does not count, numbers count by
  value): then it returns the record as it is, \<open>updated_at\<close> stays and no history entry is
  written. Otherwise, when its commits succeed, it sets \<open>updated_at\<close> and writes exactly
  one history entry, with action \<open>update\<close>, holding the old and the new value of every
  changed field.
\<close>

theorem update_prompt_noop_or_one_entry:
  assumes "get_prompt (open_session st f now) (id' p) = Some p"
      and "update_prompt (open_session st f now) p u by = (db, r)"
  shows "(\<not> any_change u p \<longrightarrow> db = open_session st f now \<and> r = Inr p) \<and>
         (any_change u p \<and> f \<noteq> Some 0 \<and> f \<noteq> Some 1 \<longrightarrow>
            (let p2 = (applied u p)\<lparr>updated_at := now\<rparr>
             in r = Inr p2 \<and>
                get_prompt (open_session (persisted db) f now) (id' p) = Some p2 \<and>
                history (persisted db) =
                  history st @ [history_row (history st) now p2 by ''update'' (Some (diffs u p))]))"
proof (cases "any_change u p")
  case False
  then show ?thesis
    using assms(2) update_prompt_noop [of u p "open_session st f now" "by"] applied_unchanged [of u p]
    by simp
next
  case True
  have found: "find (\<lambda>q. id' q = id' p) (prompts st) = Some p"
    using assms(1) by (simp add: get_prompt_open)
  have pin: "id' p \<in> id' ` set (prompts st)" by (rule find_id_mem(3) [OF found])
  let ?p2 = "(applied u p)\<lparr>updated_at := now\<rparr>"
  have "id' ?p2 = id' p" by (simp add: applied_fixed)
  then have "find (\<lambda>q. id' q = id' p) (saved ?p2 (prompts st)) = Some ?p2"
    using pin by (rule find_saved)
  then show ?thesis
    using True update_prompt_stage [OF pin True assms(2)]
    by (simp add: Let_def get_prompt_open)
qed

theorem update_prompt_noop_or_one_entry_witness:
  "(\<exists>db. update_prompt (open_session live_and_draft None 9) prompt_a new_content ''bob'' =
          (db, Inr (prompt_a\<lparr>content := ''revised'', updated_at := 9\<rparr>)) \<and>
        map action (history (persisted db)) = [''update''] \<and>
        map changes (history (persisted db)) =
          [Some [(''content'', old_new (JStr ''first'') (JStr ''revised''))]]) \<and>
   update_prompt (open_session with_metadata None 9) prompt_m reorder_metadata ''bob'' =
     (open_session with_metadata None 9, Inr prompt_m)"
proof -
  have found: "get_prompt (open_session live_and_draft None 9) (id' prompt_a) = Some prompt_a"
    by (simp add: get_prompt_open live_and_draft_def prompt_a_def)
  obtain db r where
    run: "update_prompt (open_session live_and_draft None 9) prompt_a new_content ''bob'' = (db, r)"
    by (cases "update_prompt (open_session live_and_draft None 9) prompt_a new_content ''bob''")
  have chg: "any_change new_content prompt_a"
    by (simp add: any_change_def content_changed_def new_content_def prompt_a_def)
  have ap: "applied new_content prompt_a = prompt_a\<lparr>content := ''revised''\<rparr>"
    by (simp add: applied_def new_content_def tags_changed_def metadata_changed_def prompt_a_def)
  have df: "diffs new_content prompt_a = [(''content'', old_new (JStr ''first'') (JStr ''revised''))]"
    by (simp add: diffs_def content_changed_def description_changed_def tags_changed_def
          metadata_changed_def new_content_def prompt_a_def json_text_def)
  have first: "\<exists>db. update_prompt (open_session live_and_draft None 9) prompt_a new_content ''bob'' =
          (db, Inr (prompt_a\<lparr>content := ''revised'', updated_at := 9\<rparr>)) \<and>
        map action (history (persisted db)) = [''update''] \<and>
        map changes (history (persisted db)) =
          [Some [(''content'', old_new (JStr ''first'') (JStr ''revised''))]]"
    using update_prompt_noop_or_one_entry [OF found run] run chg ap df
    by (simp add: Let_def history_row_def live_and_draft_def)
  have found_m: "get_prompt (open_session with_metadata None 9) (id' prompt_m) = Some prompt_m"
    by (simp add: get_prompt_open with_metadata_def prompt_m_def)
  obtain db2 r2 where
    run2: "update_prompt (open_session with_metadata None 9) prompt_m reorder_metadata ''bob'' =
             (db2, r2)"
    by (cases "update_prompt (open_session with_metadata None 9) prompt_m reorder_metadata ''bob''")
  have same: "\<not> any_change reorder_metadata prompt_m"
    by (simp add: any_change_def content_changed_def description_changed_def tags_changed_def
          metadata_changed_def dict_ne_def py_eq_def reorder_metadata_def prompt_m_def prompt_a_def)
  have second: "update_prompt (open_session with_metadata None 9) prompt_m reorder_metadata ''bob'' =
     (open_session with_metadata None 9, Inr prompt_m)"
    using update_prompt_noop_or_one_entry [OF found_m run2] run2 same by simp
  from first second show ?thesis by blast
qed

text \<open>
  C9 as stated fails: the supplied tags \<open>["b", "a"]\<close> differ from the current tags
  \<open>["a", "b"]\<close>, and the update is a no-op.
\<close>

theorem update_prompt_tags_counterexample:
  "pu_tags reorder_tags \<noteq> tags prompt_a \<and>
   update_prompt (open_session live_and_draft None 9) prompt_a reorder_tags ''bob'' =
     (open_session live_and_draft None 9, Inr prompt_a)"
proof -
  have "set [''b'', ''a''] = set [''a'', ''b'' :: string]" by auto
  then have same: "\<not> any_change reorder_tags prompt_a"
    by (simp add: any_change_def content_changed_def description_changed_def tags_changed_def
          metadata_changed_def reorder_tags_def prompt_a_def or_empty_def)
  have "pu_tags reorder_tags \<noteq> tags prompt_a"
    by (simp add: reorder_tags_def prompt_a_def)
  then show ?thesis
    using update_prompt_noop [OF same] applied_unchanged [OF same] by simp
qed

text \<open>
  C8, as the code has it. \<open>create_prompt\<close>, \<open>update_prompt\<close>, \<open>set_active_version\<close> and
  \<open>delete_prompt\<close> only append to the history table: the rows written before stay as they
  are. \<open>hard_delete_prompt\<close> of an existing version, when its commit succeeds, deletes the
  history rows that reference the version together with it (the relationship cascades) and
  leaves the other history rows as they are.
\<close>

theorem history_kept_except_hard_delete:
  "case oper of
     HardDeletePrompt pid \<Rightarrow>
       history (request st (oper, f, now)) =
         (if f \<noteq> Some 0 \<and> pid \<in> id' ` set (prompts st)
          then filter (\<lambda>h. prompt_id h \<noteq> pid) (history st)
          else history st)
   | _ \<Rightarrow> \<exists>new. history (request st (oper, f, now)) = history st @ new"
proof (cases oper)
  case (CreatePrompt prompt who)
  then show ?thesis using create_prompt_history by (simp add: request_def)
next
  case (UpdatePrompt pid u who)
  then show ?thesis using update_prompt_history
    by (cases "find (\<lambda>p. id' p = pid) (prompts st)")
       (simp_all add: request_def get_prompt_open, simp add: open_session_def)
next
  case (SetActiveVersion pid who)
  then show ?thesis using set_active_version_history
    by (cases "find (\<lambda>p. id' p = pid) (prompts st)")
       (simp_all add: request_def get_prompt_open, simp add: open_session_def)
next
  case (DeletePrompt pid who)
  then show ?thesis using delete_prompt_history
    by (cases "find (\<lambda>p. id' p = pid) (prompts st)")
       (simp_all add: request_def get_prompt_open, simp add: open_session_def)
next
  case (HardDeletePrompt pid)
  show ?thesis
  proof (cases "find (\<lambda>p. id' p = pid) (prompts st)")
    case None
    then have "pid \<notin> id' ` set (prompts st)" by (auto simp: find_None_iff)
    with None HardDeletePrompt show ?thesis
      by (simp add: request_def get_prompt_open) (simp add: open_session_def)
  next
    case (Some p)
    note p = find_id_mem [OF Some]
    have "pid \<in> id' ` set (prompts st)" using p(2,3) by simp
    with Some HardDeletePrompt p(2) show ?thesis
      by (simp add: request_def get_prompt_open hard_delete_prompt_history)
  qed
qed

theorem history_kept_except_hard_delete_witness:
  "history (request draft_with_history (HardDeletePrompt 2, None, 9)) = [] \<and>
   (\<exists>new. history (request draft_with_history (DeletePrompt 2 ''bob'', None, 9)) =
      history draft_with_history @ new)"
proof -
  have "history (request draft_with_history (HardDeletePrompt 2, None, 9)) = []"
    using history_kept_except_hard_delete [where oper = "HardDeletePrompt 2" and st = draft_with_history and f = None and now = 9]
    by (simp add: draft_with_history_def prompt_b_def history_row_def)
  moreover have "\<exists>new. history (request draft_with_history (DeletePrompt 2 ''bob'', None, 9)) =
      history draft_with_history @ new"
    using history_kept_except_hard_delete [where oper = "DeletePrompt 2 ''bob''" and st = draft_with_history and f = None and now = 9]
    by simp
  ultimately show ?thesis by simp
qed

text \<open>
  C8 as stated fails: the hard delete of \<open>prompt_b\<close> removes the history entry that
  references it.
\<close>

theorem hard_delete_history_counterexample:
  "map prompt_id (history draft_with_history) = [2] \<and>
   history (request draft_with_history (HardDeletePrompt 2, None, 9)) = []"
  by (simp add: request_def get_prompt_def hard_delete_prompt_def session_defs Let_def
        draft_with_history_def prompt_b_def history_row_def)




end
